theory Spec2Isabelle
  imports Main "HOL-Library.Sublist"
begin

section \<open>Hawser, standard mode: the HTTP proxy in front of the Docker daemon\<close>

text \<open>
  A shallow embedding of package \<open>server\<close> (the standard-mode HTTP server). Go strings
  are byte sequences: \<open>string\<close> here is a list of 8-bit characters. Functions of the Go
  standard library that the package calls (\<open>strings.Contains\<close>, \<open>strings.HasSuffix\<close>,
  \<open>strings.EqualFold\<close>, \<open>http.Error\<close>, \<open>io.Copy\<close>, ...) are modelled by what their
  documentation says they compute and keep their Go names.
\<close>

subsection \<open>Package strings\<close>

text \<open>\<open>strings.HasPrefix(s, prefix)\<close>: \<open>len(s) >= len(prefix) && s[:len(prefix)] == prefix\<close>.\<close>

definition HasPrefix :: "string \<Rightarrow> string \<Rightarrow> bool" where
  "HasPrefix s pre = (length pre \<le> length s \<and> take (length pre) s = pre)"

text \<open>\<open>strings.HasSuffix(s, suffix)\<close>:
  \<open>len(s) >= len(suffix) && s[len(s)-len(suffix):] == suffix\<close>.\<close>

definition HasSuffix :: "string \<Rightarrow> string \<Rightarrow> bool" where
  "HasSuffix s suf = (length suf \<le> length s \<and> drop (length s - length suf) s = suf)"

text \<open>\<open>strings.Contains(s, substr)\<close> reports whether \<open>substr\<close> occurs in \<open>s\<close> at some
  byte offset: the offsets are tried from the left.\<close>

fun Contains :: "string \<Rightarrow> string \<Rightarrow> bool" where
  "Contains [] substr = (substr = [])"
| "Contains (c # s) substr = (HasPrefix (c # s) substr \<or> Contains s substr)"

subsection \<open>Classifying a request as streaming\<close>

text \<open>\<open>isStreamingRequest(path, method)\<close>: the chain of early returns of the source, in
  its order.\<close>

definition isStreamingRequest :: "string \<Rightarrow> string \<Rightarrow> bool" where
  "isStreamingRequest path meth =
    (if Contains path ''/logs'' \<and> meth = ''GET'' then True
     else if Contains path ''/attach'' then True
     else if Contains path ''/exec/'' \<and> Contains path ''/start'' then True
     else if HasSuffix path ''/events'' then True
     else if Contains path ''/build'' \<and> meth = ''POST'' then True
     else if (Contains path ''/images/create'' \<or> Contains path ''/images/push'') \<and> meth = ''POST''
       then True
     else False)"

text \<open>The table of the specification (section 4.2), in its own words: "contains" is the
  existence of an occurrence, "ends with" the existence of a front part.\<close>

definition path_contains :: "string \<Rightarrow> string \<Rightarrow> bool" where
  "path_contains path sub = (\<exists>front rest. path = front @ sub @ rest)"

definition path_ends_with :: "string \<Rightarrow> string \<Rightarrow> bool" where
  "path_ends_with path suf = (\<exists>front. path = front @ suf)"

definition spec_streaming :: "string \<Rightarrow> string \<Rightarrow> bool" where
  "spec_streaming path meth =
    ((path_contains path ''/logs'' \<and> meth = ''GET'')
     \<or> path_contains path ''/attach''
     \<or> (path_contains path ''/exec/'' \<and> path_contains path ''/start'')
     \<or> path_ends_with path ''/events''
     \<or> (path_contains path ''/build'' \<and> meth = ''POST'')
     \<or> ((path_contains path ''/images/create'' \<or> path_contains path ''/images/push'')
         \<and> meth = ''POST''))"

subsection \<open>Hop-by-hop headers\<close>

text \<open>A byte below \<open>utf8.RuneSelf\<close> (0x80) is a one-byte rune.\<close>

definition isASCII :: "char \<Rightarrow> bool" where
  "isASCII c = (of_char c < (128::nat))"

text \<open>The comparison \<open>strings.EqualFold\<close> makes of two one-byte runes: equal, or, once
  ordered, an upper-case letter \<open>'A'..'Z'\<close> and the same letter plus \<open>'a' - 'A'\<close>.\<close>

definition foldASCII :: "char \<Rightarrow> char \<Rightarrow> bool" where
  "foldASCII sr tr =
    (tr = sr \<or>
     (let lo = min (of_char sr) (of_char tr) :: nat; hi = max (of_char sr) (of_char tr)
      in 65 \<le> lo \<and> lo \<le> 90 \<and> hi = lo + 32))"

text \<open>The two runes outside ASCII that simple Unicode case folding puts in the orbit of an
  ASCII letter, in UTF-8: the Kelvin sign U+212A (with \<open>K\<close>, \<open>k\<close>) and the long s U+017F
  (with \<open>S\<close>, \<open>s\<close>).\<close>

definition kelvin_sign :: string where
  "kelvin_sign = [CHR 0xE2, CHR 0x84, CHR 0xAA]"

definition long_s :: string where
  "long_s = [CHR 0xC5, CHR 0xBF]"

text \<open>\<open>strings.EqualFold(s, t)\<close>: equality of the UTF-8 strings under simple Unicode case
  folding, here for a second argument \<open>t\<close> that is ASCII, which is how the package calls it
  (the entries of its table). Rune by rune: a one-byte rune of \<open>s\<close> must fold to the byte of
  \<open>t\<close>; a longer rune of \<open>s\<close> matches an ASCII byte only if it is one of the two runes
  above; any other rune, and a byte that is not valid UTF-8, matches no ASCII byte. Both
  strings must end together.\<close>

fun EqualFold :: "string \<Rightarrow> string \<Rightarrow> bool" where
  "EqualFold [] [] = True"
| "EqualFold (a # s) [] = False"
| "EqualFold [] (c # t) = False"
| "EqualFold (a # s) (c # t) =
    (if isASCII a then foldASCII a c \<and> EqualFold s t
     else if HasPrefix (a # s) kelvin_sign \<and> (c = CHR ''K'' \<or> c = CHR ''k'')
       then EqualFold (drop 2 s) t
     else if HasPrefix (a # s) long_s \<and> (c = CHR ''S'' \<or> c = CHR ''s'')
       then EqualFold (drop 1 s) t
     else False)"

text \<open>The table of \<open>isHopByHopHeader\<close> and its loop: true at the first entry that folds
  to the header name.\<close>

definition hopByHop :: "string list" where
  "hopByHop = [''Connection'', ''Keep-Alive'', ''Proxy-Authenticate'', ''Proxy-Authorization'',
     ''Te'', ''Trailers'', ''Transfer-Encoding'', ''Upgrade'']"

definition isHopByHopHeader :: "string \<Rightarrow> bool" where
  "isHopByHopHeader header = list_ex (\<lambda>h. EqualFold header h) hopByHop"

text \<open>Case-insensitive comparison as the specification means it: two names are the same
  when they agree after the letters \<open>A..Z\<close> are replaced by \<open>a..z\<close>.\<close>

definition toLower :: "char \<Rightarrow> char" where
  "toLower c = (if 65 \<le> (of_char c :: nat) \<and> (of_char c :: nat) \<le> 90
                then char_of (of_char c + 32 :: nat) else c)"

definition same_name :: "string \<Rightarrow> string \<Rightarrow> bool" where
  "same_name a b = (map toLower a = map toLower b)"

subsection \<open>Header maps of net/http\<close>

text \<open>\<open>http.Header\<close> and \<open>url.Values\<close> are \<open>map[string][]string\<close>. Where the package
  ranges over one, it is a list of entries (key, values) in the order of the iteration,
  which Go leaves open; the keys of a Go map are distinct.\<close>

type_synonym header = "(string \<times> string list) list"

text \<open>\<open>textproto.CanonicalMIMEHeaderKey\<close>: a key with a byte that is not a token
  character is returned as it is; otherwise the first letter and every letter after a
  hyphen become upper case and all other letters lower case.\<close>

definition validHeaderFieldByte :: "char \<Rightarrow> bool" where
  "validHeaderFieldByte c =
    (let n = of_char c :: nat in
     (48 \<le> n \<and> n \<le> 57) \<or> (65 \<le> n \<and> n \<le> 90) \<or> (97 \<le> n \<and> n \<le> 122)
     \<or> n \<in> {33, 35, 36, 37, 38, 39, 42, 43, 45, 46, 94, 95, 96, 124, 126})"

fun canonicalLoop :: "bool \<Rightarrow> string \<Rightarrow> string" where
  "canonicalLoop upper [] = []"
| "canonicalLoop upper (c # a) =
    (let n = of_char c :: nat;
         c' = (if upper \<and> 97 \<le> n \<and> n \<le> 122 then char_of (n - 32)
               else if \<not> upper \<and> 65 \<le> n \<and> n \<le> 90 then char_of (n + 32)
               else c)
     in c' # canonicalLoop (c' = CHR ''-'') a)"

definition CanonicalMIMEHeaderKey :: "string \<Rightarrow> string" where
  "CanonicalMIMEHeaderKey s = (if list_all validHeaderFieldByte s then canonicalLoop True s else s)"

text \<open>\<open>Header.Get\<close> and \<open>Values.Get\<close>: the first value under the key (canonical for a
  header), the empty string when there is none.\<close>

definition first_value :: "string list option \<Rightarrow> string" where
  "first_value vs = (case vs of None \<Rightarrow> [] | Some [] \<Rightarrow> [] | Some (v # _) \<Rightarrow> v)"

definition Header_Get :: "header \<Rightarrow> string \<Rightarrow> string" where
  "Header_Get h key = first_value (map_of h (CanonicalMIMEHeaderKey key))"

definition Values_Get :: "header \<Rightarrow> string \<Rightarrow> string" where
  "Values_Get q key = first_value (map_of q key)"

text \<open>The header map of a response writer is only written to and looked up, so it is a
  map. \<open>Header.Add\<close> appends to the values under the canonical key, \<open>Header.Set\<close> replaces
  them.\<close>

definition Header_Add :: "(string \<rightharpoonup> string list) \<Rightarrow> string \<Rightarrow> string \<Rightarrow> (string \<rightharpoonup> string list)" where
  "Header_Add h key v =
    (let k = CanonicalMIMEHeaderKey key
     in h(k \<mapsto> (case h k of None \<Rightarrow> [] | Some vs \<Rightarrow> vs) @ [v]))"

definition Header_Set :: "(string \<rightharpoonup> string list) \<Rightarrow> string \<Rightarrow> string \<Rightarrow> (string \<rightharpoonup> string list)" where
  "Header_Set h key v = h(CanonicalMIMEHeaderKey key \<mapsto> [v])"

text \<open>The first loop of \<open>handleProxy\<close>: the header map handed to the daemon call, a
  \<open>map[string]string\<close>. \<open>forward_entry\<close> is the body of the loop for one entry of
  \<open>r.Header\<close>.\<close>

definition forward_entry :: "string \<Rightarrow> string list \<Rightarrow> (string \<rightharpoonup> string) \<Rightarrow> (string \<rightharpoonup> string)" where
  "forward_entry key vals headers =
    (if length vals > 0 \<and> \<not> isHopByHopHeader key then headers(key \<mapsto> vals ! 0) else headers)"

definition buildHeaders :: "header \<Rightarrow> (string \<rightharpoonup> string)" where
  "buildHeaders hdr = fold (\<lambda>(key, vals). forward_entry key vals) hdr Map.empty"

subsection \<open>The response writer and what a handler leaves behind\<close>

text \<open>What one request does to the outside, as the outside sees it: the header map of the
  \<open>http.ResponseWriter\<close>; the status line once it has been written, with the header map as
  it stood at that moment (later changes of the map are not sent); the calls of \<open>Write\<close>
  and \<open>Flush\<close> on the writer and of \<open>Read\<close> on the daemon's body, in the order they are
  made; the lines given to \<open>log.Printf\<close>; the calls of the daemon client; and the number of
  daemon response bodies that are open. \<open>w_flusher\<close> says whether the writer implements
  \<open>http.Flusher\<close>. \<open>w_limit\<close> is how many more writes the connection to the client will
  take before it breaks (\<open>None\<close>: it does not break). A write is recorded as the call the
  handler makes, whether or not it succeeds.\<close>

datatype out_event = Wrote string | Flushed | ReadBody string | Informational int

record conn =
  w_header :: "string \<rightharpoonup> string list"
  w_status :: "int option"
  w_sent_header :: "(string \<rightharpoonup> string list) option"
  w_out :: "out_event list"
  w_flusher :: bool
  w_limit :: "nat option"
  logs :: "string list"
  daemon_calls :: "(string \<times> string \<times> (string \<rightharpoonup> string)) list"
  open_bodies :: nat

text \<open>A handler returns, or panics (net/http then drops the connection of this request), or
  is still running. Every handler takes a number \<open>n\<close>, the number of reads of the daemon's
  body that are followed: \<open>(Running, w)\<close> says that after \<open>n\<close> such reads the handler has
  not returned, and \<open>w\<close> is the outside at that moment. A body that never ends keeps its
  handler running for every \<open>n\<close>.\<close>

datatype exit = Returned | Panicked | Running

text \<open>\<open>ResponseWriter.WriteHeader\<close> (net/http, Go 1.22): once a status has been written
  a later call is ignored (and logged as superfluous); a code outside 100..999 panics; an
  informational code 1xx other than 101 is sent at once and fixes no status; any other
  code is the status, sent with the header map as it stands.\<close>

definition send_header :: "conn \<Rightarrow> int \<Rightarrow> conn" where
  "send_header w code = w\<lparr>w_status := Some code, w_sent_header := Some (w_header w)\<rparr>"

definition WriteHeader :: "conn \<Rightarrow> int \<Rightarrow> exit \<times> conn" where
  "WriteHeader w code =
    (if w_status w \<noteq> None then (Returned, w)
     else if code < 100 \<or> code > 999 then (Panicked, w)
     else if code \<le> 199 \<and> code \<noteq> 101 then (Returned, w\<lparr>w_out := w_out w @ [Informational code]\<rparr>)
     else (Returned, send_header w code))"

text \<open>\<open>ResponseWriter.Write\<close> and \<open>Flusher.Flush\<close>: either writes the header with status
  200 first when no status has been written. A write of at least one byte fails
  (\<open>False\<close>) when the status allows no body (1xx, 204, 304: \<open>http.ErrBodyNotAllowed\<close>) or
  when the connection is broken; \<open>Flush\<close> returns nothing.\<close>

definition implicit_OK :: "conn \<Rightarrow> conn" where
  "implicit_OK w = (if w_status w = None then send_header w 200 else w)"

definition bodyAllowed :: "int \<Rightarrow> bool" where
  "bodyAllowed status = (\<not> (100 \<le> status \<and> status \<le> 199) \<and> status \<noteq> 204 \<and> status \<noteq> 304)"

definition write_ok :: "conn \<Rightarrow> bool" where
  "write_ok w = ((case w_status w of None \<Rightarrow> True | Some status \<Rightarrow> bodyAllowed status)
                 \<and> w_limit w \<noteq> Some 0)"

definition Write :: "conn \<Rightarrow> string \<Rightarrow> bool \<times> conn" where
  "Write w p =
    (let w1 = implicit_OK w;
         w2 = w1\<lparr>w_out := w_out w1 @ [Wrote p]\<rparr>
     in if p = [] then (True, w2)
        else if \<not> write_ok w1 then (False, w2)
        else (True, w2\<lparr>w_limit := map_option (\<lambda>k. k - 1) (w_limit w1)\<rparr>))"

definition Flush :: "conn \<Rightarrow> conn" where
  "Flush w = (let w' = implicit_OK w in w'\<lparr>w_out := w_out w' @ [Flushed]\<rparr>)"

text \<open>The body the handler wrote: the chunks of its writes in order.\<close>

definition body_of :: "conn \<Rightarrow> string" where
  "body_of w = concat (map (\<lambda>ev. case ev of Wrote p \<Rightarrow> p | _ \<Rightarrow> []) (w_out w))"

text \<open>\<open>log.Printf\<close>.\<close>

definition log_Printf :: "conn \<Rightarrow> string \<Rightarrow> conn" where
  "log_Printf w line = w\<lparr>logs := logs w @ [line]\<rparr>"

text \<open>\<open>http.Error(w, error, code)\<close> (Go 1.22): sets the content type headers, writes the
  status and the message followed by a newline; the result of that write is dropped.\<close>

definition http_Error :: "conn \<Rightarrow> string \<Rightarrow> int \<Rightarrow> exit \<times> conn" where
  "http_Error w msg code =
    (let h = Header_Set (w_header w) ''Content-Type'' ''text/plain; charset=utf-8'';
         h = Header_Set h ''X-Content-Type-Options'' ''nosniff''
     in case WriteHeader (w\<lparr>w_header := h\<rparr>) code of
          (Panicked, w') \<Rightarrow> (Panicked, w')
        | (_, w') \<Rightarrow> (Returned, snd (Write w' (msg @ [CHR 0x0A]))))"

subsection \<open>Readers\<close>

text \<open>An \<open>io.Reader\<close> is a state and its \<open>Read\<close>: given the length of the buffer it
  returns the bytes it put there, the error (\<open>nil\<close> is \<open>None\<close>) and the next state.
  \<open>reader_ok\<close> is the contract of the interface, \<open>0 <= n <= len(p)\<close>.\<close>

datatype read_error = EOF | ReadError string

type_synonym read_result = "string \<times> read_error option"

type_synonym 'r reader = "'r \<Rightarrow> nat \<Rightarrow> read_result \<times> 'r"

definition reader_ok :: "'r reader \<Rightarrow> bool" where
  "reader_ok rd = (\<forall>r n. length (fst (fst (rd r n))) \<le> n)"

text \<open>A call of \<open>Read\<close> on the daemon's body with a buffer of \<open>n\<close> bytes: the outside sees
  the call and the bytes it returned.\<close>

definition Read :: "'r reader \<Rightarrow> 'r \<Rightarrow> nat \<Rightarrow> conn \<Rightarrow> read_result \<times> 'r \<times> conn" where
  "Read rd body n w =
    (case rd body n of (res, body') \<Rightarrow> (res, body', w\<lparr>w_out := w_out w @ [ReadBody (fst res)]\<rparr>))"

text \<open>\<open>reads_ok rd n r ds\<close>: read with a buffer of \<open>n\<close> bytes from state \<open>r\<close>, the reader
  returns the chunks \<open>ds\<close> in turn, each with a nil error (what comes after is left open:
  the body may never end). \<open>reads_then rd n r ds res\<close>: it returns the chunks \<open>ds\<close>
  like that and then \<open>res\<close>. \<open>replays rd n r ds dl e\<close>: it returns the chunks \<open>ds\<close>
  and then the chunk \<open>dl\<close> (often empty) together with the error \<open>e\<close>.\<close>

fun reads_ok :: "'r reader \<Rightarrow> nat \<Rightarrow> 'r \<Rightarrow> string list \<Rightarrow> bool" where
  "reads_ok rd n r [] = True"
| "reads_ok rd n r (d # ds) = (fst (rd r n) = (d, None) \<and> reads_ok rd n (snd (rd r n)) ds)"

fun reads_then :: "'r reader \<Rightarrow> nat \<Rightarrow> 'r \<Rightarrow> string list \<Rightarrow> read_result \<Rightarrow> bool" where
  "reads_then rd n r [] res = (fst (rd r n) = res)"
| "reads_then rd n r (d # ds) res = (fst (rd r n) = (d, None) \<and> reads_then rd n (snd (rd r n)) ds res)"

definition replays :: "'r reader \<Rightarrow> nat \<Rightarrow> 'r \<Rightarrow> string list \<Rightarrow> string \<Rightarrow> read_error \<Rightarrow> bool" where
  "replays rd n r ds dl e = reads_then rd n r ds (dl, Some e)"

text \<open>A reader that plays a script: each entry is a chunk that has arrived and the error
  that comes with its last byte; a chunk longer than the buffer is handed out in pieces;
  after the script, EOF. And a reader that never ends: every read returns one more line
  of a log.\<close>

fun scripted :: "read_result list reader" where
  "scripted [] n = (([], Some EOF), [])"
| "scripted ((d, e) # rest) n =
    (if length d \<le> n then ((d, e), rest) else ((take n d, None), (drop n d, e) # rest))"

definition endless :: "unit reader" where
  "endless u n = ((take n ''tick'', None), ())"

text \<open>\<open>io.Copy(dst, src)\<close>: reads \<open>src\<close> through a buffer of 32 KiB and writes what each
  read returned, until a write fails or a read returns an error, EOF included. The number
  of reads followed is the first argument.\<close>

fun io_Copy :: "nat \<Rightarrow> 'r reader \<Rightarrow> conn \<Rightarrow> 'r \<Rightarrow> exit \<times> conn" where
  "io_Copy 0 rd dst src = (Running, dst)"
| "io_Copy (Suc n) rd dst src =
    (case Read rd src 32768 dst of
       ((buf, err), src', dst1) \<Rightarrow>
         (case (if length buf > 0 then Write dst1 buf else (True, dst1)) of
            (False, dst2) \<Rightarrow> (Returned, dst2)
          | (True, dst2) \<Rightarrow>
              (case err of None \<Rightarrow> io_Copy n rd dst2 src' | Some e \<Rightarrow> (Returned, dst2))))"

subsection \<open>Streaming relay\<close>

text \<open>The \<open>for\<close> loop of \<open>streamResponse\<close> with its 4096-byte buffer. It returns only when
  a read returns an error; the result of \<open>w.Write\<close> is not looked at.\<close>

fun streamLoop :: "nat \<Rightarrow> 'r reader \<Rightarrow> conn \<Rightarrow> 'r \<Rightarrow> exit \<times> conn" where
  "streamLoop 0 rd w body = (Running, w)"
| "streamLoop (Suc n) rd w body =
    (case Read rd body 4096 w of
       ((buf, err), body', w1) \<Rightarrow>
         let w2 = (if length buf > 0 then Flush (snd (Write w1 buf)) else w1)
         in case err of
              None \<Rightarrow> streamLoop n rd w2 body'
            | Some EOF \<Rightarrow> (Returned, w2)
            | Some (ReadError msg) \<Rightarrow> (Returned, log_Printf w2 (''Stream error: '' @ msg)))"

definition streamResponse :: "nat \<Rightarrow> 'r reader \<Rightarrow> conn \<Rightarrow> 'r \<Rightarrow> exit \<times> conn" where
  "streamResponse n rd w body =
    (if \<not> w_flusher w then io_Copy n rd w body else streamLoop n rd w body)"

subsection \<open>The daemon client, the request and the configuration\<close>

text \<open>The daemon client (package \<open>docker\<close>) is a parameter, with the interface of
  section 6 of the specification: \<open>RequestRaw\<close> returns an error (its text) or a response;
  \<open>Ping\<close> returns an error or nil; \<open>GetVersion\<close> returns the version or nil;
  \<open>body_Read\<close> is the \<open>Read\<close> of the response bodies.\<close>

record 'r response =
  resp_StatusCode :: int
  resp_Header :: header
  resp_Body :: 'r

record ('b, 'r) docker_client =
  RequestRaw :: "string \<Rightarrow> string \<Rightarrow> (string \<rightharpoonup> string) \<Rightarrow> 'b \<Rightarrow> string + 'r response"
  Ping :: "string option"
  GetVersion :: "string option"
  body_Read :: "'r reader"

text \<open>A call of the client's \<open>RequestRaw\<close> as the outside sees it: the method, the request
  URI and the header map it is given are on record, and a response comes with its body
  open: it is the caller's to close. \<open>Body_Close\<close> is the \<open>Close\<close> of that body.\<close>

definition call_RequestRaw ::
  "('b, 'r) docker_client \<Rightarrow> string \<Rightarrow> string \<Rightarrow> (string \<rightharpoonup> string) \<Rightarrow> 'b \<Rightarrow> conn
   \<Rightarrow> (string + 'r response) \<times> conn" where
  "call_RequestRaw dc meth uri headers body w =
    (let w' = w\<lparr>daemon_calls := daemon_calls w @ [(meth, uri, headers)]\<rparr>
     in case RequestRaw dc meth uri headers body of
          Inl err \<Rightarrow> (Inl err, w')
        | Inr resp \<Rightarrow> (Inr resp, w'\<lparr>open_bodies := open_bodies w' + 1\<rparr>))"

definition Body_Close :: "conn \<Rightarrow> conn" where
  "Body_Close w = w\<lparr>open_bodies := open_bodies w - 1\<rparr>"

text \<open>What the handlers read of a request: \<open>r.Method\<close>, \<open>r.URL.Path\<close>,
  \<open>r.URL.RequestURI()\<close>, \<open>r.URL.Query()\<close>, \<open>r.Header\<close> and \<open>r.Body\<close>.\<close>

record 'b request =
  req_Method :: string
  req_Path :: string
  req_RequestURI :: string
  req_Query :: header
  req_Header :: header
  req_Body :: 'b

record config =
  cfg_Token :: string
  cfg_AgentID :: string
  cfg_AgentName :: string

type_synonym 'b handler = "nat \<Rightarrow> conn \<Rightarrow> 'b request \<Rightarrow> exit \<times> conn"

subsection \<open>The handlers\<close>

text \<open>The second loop of \<open>handleProxy\<close>: every value of every header of the daemon's
  response is added to the writer's header map. \<open>add_values\<close> is the inner loop over the
  values of one key.\<close>

definition add_values :: "string \<Rightarrow> string list \<Rightarrow> conn \<Rightarrow> conn" where
  "add_values key vals w = fold (\<lambda>v w. w\<lparr>w_header := Header_Add (w_header w) key v\<rparr>) vals w"

definition copyResponseHeaders :: "header \<Rightarrow> conn \<Rightarrow> conn" where
  "copyResponseHeaders hdr w = fold (\<lambda>(key, vals). add_values key vals) hdr w"

text \<open>\<open>handleProxy\<close>. The deferred \<open>resp.Body.Close()\<close> runs when the handler returns and
  when it panics.\<close>

definition handleProxy :: "('b, 'r) docker_client \<Rightarrow> 'b handler" where
  "handleProxy dc n w r =
    (let headers = buildHeaders (req_Header r)
     in case call_RequestRaw dc (req_Method r) (req_RequestURI r) headers (req_Body r) w of
          (Inl err, w0) \<Rightarrow>
            http_Error (log_Printf w0 (''Docker request failed: '' @ err))
              (''Docker request failed: '' @ err) 502
        | (Inr resp, w1) \<Rightarrow>
            (let w2 = copyResponseHeaders (resp_Header resp) w1
             in case WriteHeader w2 (resp_StatusCode resp) of
                  (Panicked, w3) \<Rightarrow> (Panicked, Body_Close w3)
                | (_, w3) \<Rightarrow>
                    (case (if isStreamingRequest (req_Path r) (req_Method r)
                           then streamResponse n (body_Read dc) w3 (resp_Body resp)
                           else io_Copy n (body_Read dc) w3 (resp_Body resp)) of
                       (Running, w4) \<Rightarrow> (Running, w4)
                     | (x, w4) \<Rightarrow> (x, Body_Close w4))))"

definition handleHealth :: "('b, 'r) docker_client \<Rightarrow> 'b handler" where
  \<open>handleHealth dc n w r =
    (case Ping dc of
       Some err \<Rightarrow> http_Error w (''Docker unhealthy: '' @ err) 503
     | None \<Rightarrow>
         (Returned,
           snd (Write (w\<lparr>w_header := Header_Set (w_header w) ''Content-Type'' ''application/json''\<rparr>)
             ''{"status":"healthy"}'')))\<close>

definition handleInfo :: "('b, 'r) docker_client \<Rightarrow> config \<Rightarrow> 'b handler" where
  \<open>handleInfo dc cfg n w r =
    (let dockerVersion = (case GetVersion dc of None \<Rightarrow> ''unknown'' | Some v \<Rightarrow> v)
     in (Returned,
          snd (Write (w\<lparr>w_header := Header_Set (w_header w) ''Content-Type'' ''application/json''\<rparr>)
            (''{"agentId":"'' @ cfg_AgentID cfg @ ''","agentName":"'' @ cfg_AgentName cfg
             @ ''","dockerVersion":"'' @ dockerVersion @ ''","mode":"standard"}''))))\<close>

text \<open>\<open>authMiddleware\<close>.\<close>

definition authMiddleware :: "config \<Rightarrow> 'b handler \<Rightarrow> 'b handler" where
  "authMiddleware cfg next n w r =
    (if req_Path r = ''/_hawser/health'' then next n w r
     else if cfg_Token cfg \<noteq> [] then
       (let token = Header_Get (req_Header r) ''X-Hawser-Token'';
            token = (if token = [] then Values_Get (req_Query r) ''token'' else token)
        in if token \<noteq> cfg_Token cfg then http_Error w ''Unauthorized'' 401
           else next n w r)
     else next n w r)"

text \<open>\<open>loggingMiddleware\<close>; \<open>elapsed\<close> is the text of \<open>time.Since(start)\<close>. The second
  line is logged when the inner handler has returned.\<close>

definition loggingMiddleware :: "string \<Rightarrow> 'b handler \<Rightarrow> 'b handler" where
  "loggingMiddleware elapsed next n w r =
    (case next n (log_Printf w (''--> '' @ req_Method r @ '' '' @ req_Path r)) r of
       (Returned, w') \<Rightarrow>
         (Returned,
           log_Printf w' (''<-- '' @ req_Method r @ '' '' @ req_Path r @ '' ('' @ elapsed @ '')''))
     | (x, w') \<Rightarrow> (x, w'))"

text \<open>The routes \<open>Run\<close> registers on its \<open>http.ServeMux\<close>: the two exact paths, and \<open>/\<close>
  for every other path. (For a path that is not in canonical form, with a doubled slash
  or a dot segment, the ServeMux itself answers with a redirect; that is left out, and
  nothing below uses the mux at such a path.)\<close>

definition mux :: "('b, 'r) docker_client \<Rightarrow> config \<Rightarrow> 'b handler" where
  "mux dc cfg n w r =
    (if req_Path r = ''/_hawser/health'' then handleHealth dc n w r
     else if req_Path r = ''/_hawser/info'' then handleInfo dc cfg n w r
     else handleProxy dc n w r)"

text \<open>The handler \<open>Run\<close> gives the server.\<close>

definition server_Handler :: "('b, 'r) docker_client \<Rightarrow> config \<Rightarrow> string \<Rightarrow> 'b handler" where
  "server_Handler dc cfg elapsed = loggingMiddleware elapsed (authMiddleware cfg (mux dc cfg))"

subsection \<open>Notions used in the statements\<close>

text \<open>All values the daemon's response carries for the header names whose canonical form is
  \<open>k\<close>, in the order of the entries; and the header map that results from adding them to
  the map \<open>h\<close>.\<close>

definition values_for :: "header \<Rightarrow> string \<Rightarrow> string list" where
  "values_for hdr k = concat (map snd (filter (\<lambda>(key, vals). CanonicalMIMEHeaderKey key = k) hdr))"

definition with_values :: "(string \<rightharpoonup> string list) \<Rightarrow> header \<Rightarrow> (string \<rightharpoonup> string list)" where
  "with_values h hdr =
    (\<lambda>k. if values_for hdr k = [] then h k
          else Some ((case h k of None \<Rightarrow> [] | Some old \<Rightarrow> old) @ values_for hdr k))"

text \<open>What is seen of a relay that, for each chunk in turn, reads it, writes it and flushes
  before the next read (a read of no bytes is followed by no write); and of a copy that
  reads and writes in turn, without a flush.\<close>

definition relay_events :: "string list \<Rightarrow> out_event list" where
  "relay_events ds =
    concat (map (\<lambda>d. if d = [] then [ReadBody d] else [ReadBody d, Wrote d, Flushed]) ds)"

definition copy_events :: "string list \<Rightarrow> out_event list" where
  "copy_events ds = concat (map (\<lambda>d. if d = [] then [ReadBody d] else [ReadBody d, Wrote d]) ds)"

text \<open>The writer takes the writes of the chunks \<open>ds\<close>: none of them has a byte, or the
  status allows a body and the connection holds for as many writes as there are chunks
  with bytes.\<close>

definition can_take :: "conn \<Rightarrow> string list \<Rightarrow> bool" where
  "can_take w ds =
    (let k = length (filter (\<lambda>d. d \<noteq> []) ds)
     in k = 0 \<or> ((case w_status w of None \<Rightarrow> True | Some status \<Rightarrow> bodyAllowed status)
                 \<and> (case w_limit w of None \<Rightarrow> True | Some l \<Rightarrow> k \<le> l)))"

text \<open>What the relay logs for the error that ended the reading: nothing for EOF.\<close>

definition stream_log :: "read_error \<Rightarrow> string list" where
  "stream_log e = (case e of EOF \<Rightarrow> [] | ReadError msg \<Rightarrow> [''Stream error: '' @ msg])"

text \<open>What \<open>WriteHeader\<close> shows for a code it accepts: an informational code is seen at
  once.\<close>

definition header_events :: "int \<Rightarrow> out_event list" where
  "header_events code = (if code \<le> 199 \<and> code \<noteq> 101 then [Informational code] else [])"

text \<open>Every write is followed at once by a flush. The number of writes.\<close>

fun flushed_after_every_write :: "out_event list \<Rightarrow> bool" where
  "flushed_after_every_write [] = True"
| "flushed_after_every_write (Wrote p # Flushed # evs) = flushed_after_every_write evs"
| "flushed_after_every_write (Wrote p # evs) = False"
| "flushed_after_every_write (ev # evs) = flushed_after_every_write evs"

definition count_writes :: "out_event list \<Rightarrow> nat" where
  "count_writes evs = length (filter (\<lambda>ev. case ev of Wrote p \<Rightarrow> True | _ \<Rightarrow> False) evs)"

subsection \<open>A concrete daemon, request and configuration\<close>

text \<open>The writer at the start of a request, on a connection that does not break; a daemon
  that fails on \<open>/fail\<close> and otherwise answers 200 with a body that arrives in two pieces; a
  daemon whose body never ends; a request that carries a wrong token in the header and in
  the query.\<close>

definition fresh_conn :: "bool \<Rightarrow> conn" where
  "fresh_conn fl = \<lparr>w_header = Map.empty, w_status = None, w_sent_header = None, w_out = [],
     w_flusher = fl, w_limit = None, logs = [], daemon_calls = [], open_bodies = 0\<rparr>"

definition example_response :: "read_result list response" where
  "example_response =
    \<lparr>resp_StatusCode = 200,
     resp_Header = [(''Content-Type'', [''text/plain'']), (''Connection'', [''close'']),
                    (''Set-Cookie'', [''a=1'', ''b=2''])],
     resp_Body = [(''hello '', None), (''world'', None)]\<rparr>"

definition example_daemon :: "(unit, read_result list) docker_client" where
  "example_daemon =
    \<lparr>RequestRaw = (\<lambda>meth uri headers body.
        if uri = ''/fail'' then Inl ''daemon down'' else Inr example_response),
      Ping = None,
      GetVersion = Some ''24.0.7'',
      body_Read = scripted\<rparr>"

definition tail_daemon :: "(unit, unit) docker_client" where
  "tail_daemon =
    \<lparr>RequestRaw = (\<lambda>meth uri headers body.
        Inr \<lparr>resp_StatusCode = 200, resp_Header = [(''Content-Type'', [''text/plain''])],
             resp_Body = ()\<rparr>),
      Ping = None,
      GetVersion = None,
      body_Read = endless\<rparr>"

definition example_request :: "string \<Rightarrow> string \<Rightarrow> unit request" where
  "example_request meth path =
    \<lparr>req_Method = meth, req_Path = path, req_RequestURI = path, req_Query = [(''token'', [''guess''])],
     req_Header = [(''Accept'', [''text/plain'', ''*/*'']), (''connection'', [''keep-alive'']),
                   (''X-Hawser-Token'', [''wrong''])],
     req_Body = ()\<rparr>"

definition example_config :: config where
  "example_config = \<lparr>cfg_Token = ''s3cret'', cfg_AgentID = ''a1'', cfg_AgentName = ''agent''\<rparr>"

section \<open>Facts about the model\<close>

subsection \<open>The string functions\<close>

lemma HasPrefix_iff: "HasPrefix s pre \<longleftrightarrow> (\<exists>rest. s = pre @ rest)"
proof
  assume "HasPrefix s pre"
  then have "s = pre @ drop (length pre) s"
    by (metis HasPrefix_def append_take_drop_id)
  then show "\<exists>rest. s = pre @ rest" ..
next
  assume "\<exists>rest. s = pre @ rest"
  then show "HasPrefix s pre"
    by (auto simp: HasPrefix_def)
qed

lemma HasSuffix_iff: "HasSuffix s suf \<longleftrightarrow> path_ends_with s suf"
proof
  assume "HasSuffix s suf"
  then have "s = take (length s - length suf) s @ suf"
    by (metis HasSuffix_def append_take_drop_id)
  then show "path_ends_with s suf"
    unfolding path_ends_with_def by (rule exI)
next
  assume "path_ends_with s suf"
  then show "HasSuffix s suf"
    by (auto simp: HasSuffix_def path_ends_with_def)
qed

lemma Contains_iff: "Contains s sub \<longleftrightarrow> path_contains s sub"
proof (induction s)
  case Nil
  show ?case by (auto simp: path_contains_def)
next
  case (Cons c s)
  show ?case
  proof
    assume "Contains (c # s) sub"
    then consider "HasPrefix (c # s) sub" | "Contains s sub" by auto
    then show "path_contains (c # s) sub"
    proof cases
      case 1
      then obtain rest where "c # s = [] @ sub @ rest"
        by (auto simp: HasPrefix_iff)
      then show ?thesis unfolding path_contains_def by blast
    next
      case 2
      with Cons.IH obtain front rest where "s = front @ sub @ rest"
        by (auto simp: path_contains_def)
      then have "c # s = (c # front) @ sub @ rest" by simp
      then show ?thesis unfolding path_contains_def by blast
    qed
  next
    assume "path_contains (c # s) sub"
    then obtain front rest where fb: "c # s = front @ sub @ rest"
      by (auto simp: path_contains_def)
    show "Contains (c # s) sub"
    proof (cases front)
      case Nil
      with fb have "HasPrefix (c # s) sub" by (auto simp: HasPrefix_iff)
      then show ?thesis by simp
    next
      case (Cons d front')
      with fb have "s = front' @ sub @ rest" by simp
      then have "path_contains s sub" unfolding path_contains_def by blast
      with Cons.IH show ?thesis by simp
    qed
  qed
qed

subsection \<open>Case folding and the hop-by-hop table\<close>

lemma of_char_toLower:
  "(of_char (toLower c) :: nat) =
     (if 65 \<le> (of_char c :: nat) \<and> (of_char c :: nat) \<le> 90 then of_char c + 32 else of_char c)"
  by (simp add: toLower_def of_char_of)

lemma foldASCII_toLower: "foldASCII a c \<longleftrightarrow> toLower a = toLower c"
proof -
  have "toLower a = toLower c \<longleftrightarrow> (of_char (toLower a) :: nat) = of_char (toLower c)"
    by simp
  moreover have "c = a \<longleftrightarrow> (of_char c :: nat) = of_char a"
    by simp
  ultimately show ?thesis
    unfolding foldASCII_def of_char_toLower Let_def
    by (simp only: min_def max_def) (auto split: if_splits)
qed

lemma isASCII_toLower: "isASCII (toLower c) = isASCII c"
  unfolding isASCII_def of_char_toLower by auto

lemma EqualFold_ASCII:
  "list_all isASCII s \<Longrightarrow> EqualFold s t \<longleftrightarrow> same_name s t"
  by (induction s t rule: EqualFold.induct) (auto simp: foldASCII_toLower same_name_def)

lemma same_name_ASCII:
  "same_name s t \<Longrightarrow> list_all isASCII t \<Longrightarrow> list_all isASCII s"
proof (induction s arbitrary: t)
  case Nil
  show ?case by simp
next
  case (Cons a s)
  then obtain c t' where t: "t = c # t'" by (cases t) (auto simp: same_name_def)
  with Cons.prems have "toLower a = toLower c" "isASCII c" by (auto simp: same_name_def)
  then have "isASCII a" by (metis isASCII_toLower)
  with Cons t show ?case by (auto simp: same_name_def)
qed

lemma hopByHop_ASCII: "h \<in> set hopByHop \<Longrightarrow> list_all isASCII h"
  by (auto simp: hopByHop_def isASCII_def)

lemma isHopByHopHeader_same_name:
  assumes "h \<in> set hopByHop" "same_name key h"
  shows "isHopByHopHeader key"
proof -
  from assms have "list_all isASCII key"
    using same_name_ASCII hopByHop_ASCII by blast
  with assms have "EqualFold key h" by (simp add: EqualFold_ASCII)
  with assms show ?thesis by (auto simp: isHopByHopHeader_def list_ex_iff)
qed

lemma isHopByHopHeader_ASCII:
  "list_all isASCII key \<Longrightarrow> isHopByHopHeader key \<longleftrightarrow> (\<exists>h \<in> set hopByHop. same_name key h)"
  by (auto simp: isHopByHopHeader_def list_ex_iff EqualFold_ASCII)


subsection \<open>The header map sent to the daemon\<close>

lemma fold_forward_hop:
  "isHopByHopHeader key \<Longrightarrow> fold (\<lambda>(key, vals). forward_entry key vals) hdr m key = m key"
  by (induction hdr arbitrary: m) (auto simp: forward_entry_def)

lemma buildHeaders_hop: "isHopByHopHeader key \<Longrightarrow> buildHeaders hdr key = None"
  by (simp add: buildHeaders_def fold_forward_hop)

lemma fold_forward_absent:
  "key \<notin> fst ` set hdr \<Longrightarrow> fold (\<lambda>(key, vals). forward_entry key vals) hdr m key = m key"
  by (induction hdr arbitrary: m) (auto simp: forward_entry_def)

lemma fold_forward_present:
  "distinct (map fst hdr) \<Longrightarrow> (key, v # vs) \<in> set hdr \<Longrightarrow> \<not> isHopByHopHeader key \<Longrightarrow>
   fold (\<lambda>(key, vals). forward_entry key vals) hdr m key = Some v"
proof (induction hdr arbitrary: m)
  case Nil
  then show ?case by simp
next
  case (Cons entry hdr)
  show ?case
  proof (cases "entry = (key, v # vs)")
    case True
    with Cons.prems have "key \<notin> fst ` set hdr" by auto
    moreover from Cons.prems have "forward_entry key (v # vs) m = m(key \<mapsto> v)"
      by (simp add: forward_entry_def)
    ultimately show ?thesis using True
      by (simp add: fold_forward_absent)
  next
    case False
    with Cons show ?thesis by auto
  qed
qed

lemma buildHeaders_present:
  "distinct (map fst hdr) \<Longrightarrow> (key, v # vs) \<in> set hdr \<Longrightarrow> \<not> isHopByHopHeader key \<Longrightarrow>
   buildHeaders hdr key = Some v"
  by (simp add: buildHeaders_def fold_forward_present)

lemma forward_entry_first: "forward_entry key (take (Suc 0) vals) = forward_entry key vals"
  by (cases vals) (auto simp: forward_entry_def)

lemma fold_forward_first:
  "fold (\<lambda>(key, vals). forward_entry key vals) (map (\<lambda>(key, vals). (key, take 1 vals)) hdr) m
   = fold (\<lambda>(key, vals). forward_entry key vals) hdr m"
  by (induction hdr arbitrary: m) (auto simp: forward_entry_first)

lemma buildHeaders_first:
  "buildHeaders (map (\<lambda>(key, vals). (key, take 1 vals)) hdr) = buildHeaders hdr"
  unfolding buildHeaders_def by (rule fold_forward_first)

lemma buildHeaders_absent: "key \<notin> fst ` set hdr \<Longrightarrow> buildHeaders hdr key = None"
  by (simp add: buildHeaders_def fold_forward_absent)

lemma fold_forward_filter:
  "fold (\<lambda>(key, vals). forward_entry key vals)
        (filter (\<lambda>(key, vals). \<not> isHopByHopHeader key) hdr) m
   = fold (\<lambda>(key, vals). forward_entry key vals) hdr m"
  by (induction hdr arbitrary: m) (auto simp: forward_entry_def)

lemma buildHeaders_filter:
  "buildHeaders (filter (\<lambda>(key, vals). \<not> isHopByHopHeader key) hdr) = buildHeaders hdr"
  by (simp add: buildHeaders_def fold_forward_filter)

subsection \<open>The writer\<close>

lemma implicit_OK_frame:
  "w_out (implicit_OK w) = w_out w \<and> w_header (implicit_OK w) = w_header w
   \<and> w_flusher (implicit_OK w) = w_flusher w \<and> logs (implicit_OK w) = logs w
   \<and> daemon_calls (implicit_OK w) = daemon_calls w \<and> open_bodies (implicit_OK w) = open_bodies w
   \<and> w_limit (implicit_OK w) = w_limit w"
  by (simp add: implicit_OK_def send_header_def)

lemma implicit_OK_status:
  "w_status (implicit_OK w) = Some (case w_status w of None \<Rightarrow> 200 | Some c \<Rightarrow> c)
   \<and> w_sent_header (implicit_OK w)
       = (case w_status w of None \<Rightarrow> Some (w_header w) | Some c \<Rightarrow> w_sent_header w)"
  by (simp add: implicit_OK_def send_header_def split: option.splits)

lemma Write_out: "w_out (snd (Write w p)) = w_out w @ [Wrote p]"
  by (simp add: Write_def Let_def implicit_OK_frame)

lemma Write_frame:
  "w_header (snd (Write w p)) = w_header w \<and> w_flusher (snd (Write w p)) = w_flusher w
   \<and> logs (snd (Write w p)) = logs w \<and> daemon_calls (snd (Write w p)) = daemon_calls w
   \<and> open_bodies (snd (Write w p)) = open_bodies w"
  by (simp add: Write_def Let_def implicit_OK_frame)

lemma Write_status:
  "w_status (snd (Write w p)) = Some (case w_status w of None \<Rightarrow> 200 | Some c \<Rightarrow> c)
   \<and> w_sent_header (snd (Write w p))
       = (case w_status w of None \<Rightarrow> Some (w_header w) | Some c \<Rightarrow> w_sent_header w)"
  by (simp add: Write_def Let_def implicit_OK_status)

lemma Flush_out: "w_out (Flush w) = w_out w @ [Flushed]"
  by (simp add: Flush_def Let_def implicit_OK_frame)

lemma Flush_frame:
  "w_header (Flush w) = w_header w \<and> w_flusher (Flush w) = w_flusher w
   \<and> logs (Flush w) = logs w \<and> daemon_calls (Flush w) = daemon_calls w
   \<and> open_bodies (Flush w) = open_bodies w \<and> w_limit (Flush w) = w_limit w"
  by (simp add: Flush_def Let_def implicit_OK_frame)

lemma Flush_status:
  "w_status (Flush w) = Some (case w_status w of None \<Rightarrow> 200 | Some c \<Rightarrow> c)
   \<and> w_sent_header (Flush w)
       = (case w_status w of None \<Rightarrow> Some (w_header w) | Some c \<Rightarrow> w_sent_header w)"
  by (simp add: Flush_def Let_def implicit_OK_status)

lemma Read_eq:
  "Read rd body n w =
     (fst (rd body n), snd (rd body n), w\<lparr>w_out := w_out w @ [ReadBody (fst (fst (rd body n)))]\<rparr>)"
  by (simp add: Read_def split: prod.splits)

lemma log_Printf_frame:
  "w_status (log_Printf w l) = w_status w \<and> w_out (log_Printf w l) = w_out w
   \<and> body_of (log_Printf w l) = body_of w \<and> w_header (log_Printf w l) = w_header w
   \<and> w_sent_header (log_Printf w l) = w_sent_header w
   \<and> w_flusher (log_Printf w l) = w_flusher w \<and> w_limit (log_Printf w l) = w_limit w
   \<and> daemon_calls (log_Printf w l) = daemon_calls w
   \<and> open_bodies (log_Printf w l) = open_bodies w \<and> logs (log_Printf w l) = logs w @ [l]"
  by (simp add: log_Printf_def body_of_def)

lemma Body_Close_frame:
  "w_out (Body_Close w) = w_out w \<and> logs (Body_Close w) = logs w
   \<and> w_header (Body_Close w) = w_header w \<and> w_status (Body_Close w) = w_status w
   \<and> w_sent_header (Body_Close w) = w_sent_header w
   \<and> daemon_calls (Body_Close w) = daemon_calls w
   \<and> open_bodies (Body_Close w) = open_bodies w - 1"
  by (simp add: Body_Close_def)

lemma WriteHeader_frame:
  "w_header (snd (WriteHeader w code)) = w_header w
   \<and> w_flusher (snd (WriteHeader w code)) = w_flusher w
   \<and> logs (snd (WriteHeader w code)) = logs w
   \<and> daemon_calls (snd (WriteHeader w code)) = daemon_calls w
   \<and> open_bodies (snd (WriteHeader w code)) = open_bodies w
   \<and> w_limit (snd (WriteHeader w code)) = w_limit w"
  by (simp add: WriteHeader_def send_header_def)

lemma WriteHeader_fresh:
  "w_status w = None \<Longrightarrow> 100 \<le> code \<Longrightarrow> code \<le> 999 \<Longrightarrow>
   fst (WriteHeader w code) = Returned
   \<and> w_out (snd (WriteHeader w code)) = w_out w @ header_events code
   \<and> (header_events code = [] \<longrightarrow>
        w_status (snd (WriteHeader w code)) = Some code
        \<and> w_sent_header (snd (WriteHeader w code)) = Some (w_header w))
   \<and> (header_events code \<noteq> [] \<longrightarrow> w_status (snd (WriteHeader w code)) = None)"
  by (simp add: WriteHeader_def send_header_def header_events_def)

lemma WriteHeader_not_Running: "fst (WriteHeader w code) \<noteq> Running"
  by (simp add: WriteHeader_def)

lemma http_Error_fresh:
  "w_status w = None \<Longrightarrow> 200 \<le> code \<Longrightarrow> code \<le> 999 \<Longrightarrow>
   \<exists>w'. http_Error w msg code = (Returned, w') \<and> w_status w' = Some code
     \<and> w_out w' = w_out w @ [Wrote (msg @ [CHR 0x0A])] \<and> logs w' = logs w
     \<and> daemon_calls w' = daemon_calls w \<and> open_bodies w' = open_bodies w"
  by (simp add: http_Error_def WriteHeader_def send_header_def Write_def implicit_OK_def Let_def)

lemma http_Error_frame:
  "daemon_calls (snd (http_Error w msg code)) = daemon_calls w
   \<and> open_bodies (snd (http_Error w msg code)) = open_bodies w
   \<and> fst (http_Error w msg code) \<noteq> Running"
  by (simp add: http_Error_def Let_def WriteHeader_def send_header_def Write_frame)

subsection \<open>The relay loop\<close>

lemma relay_step_frame:
  assumes "w2 = (if length d > 0 then Flush (snd (Write (w\<lparr>w_out := w_out w @ [ReadBody d]\<rparr>) d))
                 else w\<lparr>w_out := w_out w @ [ReadBody d]\<rparr>)"
  shows "w_out w2 = w_out w @ relay_events [d]"
    and "w_header w2 = w_header w" and "w_flusher w2 = w_flusher w" and "logs w2 = logs w"
    and "daemon_calls w2 = daemon_calls w" and "open_bodies w2 = open_bodies w"
    and "w_status w = Some c \<Longrightarrow> w_status w2 = Some c \<and> w_sent_header w2 = w_sent_header w"
  using assms
  by (simp_all add: relay_events_def Flush_out Write_out Flush_frame Write_frame Flush_status
        Write_status)

lemma streamLoop_Suc:
  "streamLoop (Suc n) rd w body =
    (let d = fst (fst (rd body 4096)); err = snd (fst (rd body 4096));
         w2 = (if length d > 0 then Flush (snd (Write (w\<lparr>w_out := w_out w @ [ReadBody d]\<rparr>) d))
               else w\<lparr>w_out := w_out w @ [ReadBody d]\<rparr>)
     in case err of
          None \<Rightarrow> streamLoop n rd w2 (snd (rd body 4096))
        | Some EOF \<Rightarrow> (Returned, w2)
        | Some (ReadError msg) \<Rightarrow> (Returned, log_Printf w2 (''Stream error: '' @ msg)))"
proof (cases "rd body 4096")
  case (Pair res body')
  then show ?thesis
    by (cases res) (simp add: Read_def Let_def split: option.splits read_error.splits)
qed

lemma streamLoop_frame:
  "fst (streamLoop n rd w body) \<noteq> Panicked
   \<and> w_header (snd (streamLoop n rd w body)) = w_header w
   \<and> w_flusher (snd (streamLoop n rd w body)) = w_flusher w
   \<and> daemon_calls (snd (streamLoop n rd w body)) = daemon_calls w
   \<and> open_bodies (snd (streamLoop n rd w body)) = open_bodies w
   \<and> (\<forall>c. w_status w = Some c \<longrightarrow>
         w_status (snd (streamLoop n rd w body)) = Some c
         \<and> w_sent_header (snd (streamLoop n rd w body)) = w_sent_header w)"
proof (induction n arbitrary: w body)
  case 0
  show ?case by simp
next
  case (Suc n)
  define d where "d = fst (fst (rd body 4096))"
  define w2 where "w2 = (if length d > 0 then Flush (snd (Write (w\<lparr>w_out := w_out w @ [ReadBody d]\<rparr>) d))
               else w\<lparr>w_out := w_out w @ [ReadBody d]\<rparr>)"
  note fr = relay_step_frame [OF w2_def]
  show ?case
  proof (cases "snd (fst (rd body 4096))")
    case None
    then have "streamLoop (Suc n) rd w body = streamLoop n rd w2 (snd (rd body 4096))"
      by (simp add: streamLoop_Suc Let_def d_def w2_def del: streamLoop.simps)
    with Suc.IH [of w2 "snd (rd body 4096)"] fr show ?thesis by simp
  next
    case (Some e)
    then have "streamLoop (Suc n) rd w body
       = (Returned, case e of EOF \<Rightarrow> w2 | ReadError msg \<Rightarrow> log_Printf w2 (''Stream error: '' @ msg))"
      by (simp add: streamLoop_Suc Let_def d_def w2_def del: streamLoop.simps split: read_error.splits)
    with fr show ?thesis by (simp add: log_Printf_frame split: read_error.splits)
  qed
qed

lemma streamLoop_prefix:
  "reads_ok rd 4096 body ds \<Longrightarrow>
   fst (streamLoop (length ds) rd w body) = Running
   \<and> w_out (snd (streamLoop (length ds) rd w body)) = w_out w @ relay_events ds
   \<and> logs (snd (streamLoop (length ds) rd w body)) = logs w"
proof (induction ds arbitrary: w body)
  case Nil
  show ?case by (simp add: relay_events_def)
next
  case (Cons d ds)
  define w2 where "w2 = (if length d > 0 then Flush (snd (Write (w\<lparr>w_out := w_out w @ [ReadBody d]\<rparr>) d))
               else w\<lparr>w_out := w_out w @ [ReadBody d]\<rparr>)"
  note fr = relay_step_frame [OF w2_def]
  from Cons.prems have rd: "fst (rd body 4096) = (d, None)"
    and rest: "reads_ok rd 4096 (snd (rd body 4096)) ds" by simp_all
  from rd have "streamLoop (length (d # ds)) rd w body = streamLoop (length ds) rd w2 (snd (rd body 4096))"
    by (simp add: streamLoop_Suc Let_def w2_def del: streamLoop.simps)
  moreover have "relay_events (d # ds) = relay_events [d] @ relay_events ds"
    by (simp add: relay_events_def)
  ultimately show ?case using Cons.IH [OF rest, of w2] fr by simp
qed

lemma streamLoop_end:
  "reads_then rd 4096 body ds (dl, Some e) \<Longrightarrow>
   fst (streamLoop (Suc (length ds)) rd w body) = Returned
   \<and> w_out (snd (streamLoop (Suc (length ds)) rd w body)) = w_out w @ relay_events (ds @ [dl])
   \<and> logs (snd (streamLoop (Suc (length ds)) rd w body)) = logs w @ stream_log e"
proof (induction ds arbitrary: w body)
  case Nil
  define w2 where "w2 = (if length dl > 0 then Flush (snd (Write (w\<lparr>w_out := w_out w @ [ReadBody dl]\<rparr>) dl))
               else w\<lparr>w_out := w_out w @ [ReadBody dl]\<rparr>)"
  note fr = relay_step_frame [OF w2_def]
  from Nil have "streamLoop (Suc 0) rd w body
       = (Returned, case e of EOF \<Rightarrow> w2 | ReadError msg \<Rightarrow> log_Printf w2 (''Stream error: '' @ msg))"
    by (simp add: streamLoop_Suc Let_def w2_def del: streamLoop.simps split: read_error.splits)
  with fr show ?case by (simp add: log_Printf_frame stream_log_def split: read_error.splits)
next
  case (Cons d ds)
  define w2 where "w2 = (if length d > 0 then Flush (snd (Write (w\<lparr>w_out := w_out w @ [ReadBody d]\<rparr>) d))
               else w\<lparr>w_out := w_out w @ [ReadBody d]\<rparr>)"
  note fr = relay_step_frame [OF w2_def]
  from Cons.prems have rd: "fst (rd body 4096) = (d, None)"
    and rest: "reads_then rd 4096 (snd (rd body 4096)) ds (dl, Some e)" by simp_all
  from rd have "streamLoop (Suc (length (d # ds))) rd w body
      = streamLoop (Suc (length ds)) rd w2 (snd (rd body 4096))"
    by (simp add: streamLoop_Suc [of "Suc (length ds)"] Let_def w2_def del: streamLoop.simps)
  moreover have "relay_events ((d # ds) @ [dl]) = relay_events [d] @ relay_events (ds @ [dl])"
    by (simp add: relay_events_def)
  ultimately show ?case using Cons.IH [OF rest, of w2] fr by simp
qed

lemma streamLoop_Returned:
  "fst (streamLoop n rd w body) = Returned \<Longrightarrow>
   \<exists>ds dl e. reads_then rd 4096 body ds (dl, Some e) \<and> length ds < n"
proof (induction n arbitrary: w body)
  case 0
  then show ?case by simp
next
  case (Suc n)
  define d where "d = fst (fst (rd body 4096))"
  define w2 where "w2 = (if length d > 0 then Flush (snd (Write (w\<lparr>w_out := w_out w @ [ReadBody d]\<rparr>) d))
               else w\<lparr>w_out := w_out w @ [ReadBody d]\<rparr>)"
  show ?case
  proof (cases "snd (fst (rd body 4096))")
    case None
    then have "streamLoop (Suc n) rd w body = streamLoop n rd w2 (snd (rd body 4096))"
      by (simp add: streamLoop_Suc Let_def d_def w2_def del: streamLoop.simps)
    with Suc.prems Suc.IH [of w2 "snd (rd body 4096)"] obtain ds dl e where
      "reads_then rd 4096 (snd (rd body 4096)) ds (dl, Some e)" "length ds < n"
      by auto
    moreover from None have "fst (rd body 4096) = (d, None)"
      by (simp add: d_def prod_eq_iff)
    ultimately have "reads_then rd 4096 body (d # ds) (dl, Some e) \<and> length (d # ds) < Suc n"
      by simp
    then show ?thesis by blast
  next
    case (Some e)
    then have "reads_then rd 4096 body [] (d, Some e) \<and> length ([] :: string list) < Suc n"
      by (simp add: d_def prod_eq_iff)
    then show ?thesis by blast
  qed
qed

lemma reads_then_ok: "reads_then rd n r ds res \<Longrightarrow> reads_ok rd n r ds"
  by (induction ds arbitrary: r) simp_all

lemma reads_ok_chunks:
  "reader_ok rd \<Longrightarrow> reads_ok rd n r ds \<Longrightarrow> \<forall>d \<in> set ds. length d \<le> n"
proof (induction ds arbitrary: r)
  case Nil
  show ?case by simp
next
  case (Cons d ds)
  from Cons.prems(1) have "length (fst (fst (rd r n))) \<le> n" by (simp add: reader_ok_def)
  with Cons.prems(2) have "length d \<le> n" by simp
  moreover from Cons.prems(2) have "reads_ok rd n (snd (rd r n)) ds" by simp
  from Cons.IH [OF Cons.prems(1) this] have "\<forall>d \<in> set ds. length d \<le> n" .
  ultimately show ?case by simp
qed

lemma reads_then_chunks:
  "reader_ok rd \<Longrightarrow> reads_then rd n r ds (dl, err) \<Longrightarrow> \<forall>d \<in> set (ds @ [dl]). length d \<le> n"
proof (induction ds arbitrary: r)
  case Nil
  from Nil(1) have "length (fst (fst (rd r n))) \<le> n" by (simp add: reader_ok_def)
  with Nil(2) show ?case by simp
next
  case (Cons d ds)
  from Cons.prems(1) have "length (fst (fst (rd r n))) \<le> n" by (simp add: reader_ok_def)
  with Cons.prems(2) have "length d \<le> n" by simp
  moreover from Cons.prems(2) have "reads_then rd n (snd (rd r n)) ds (dl, err)" by simp
  from Cons.IH [OF Cons.prems(1) this] have "\<forall>d \<in> set (ds @ [dl]). length d \<le> n" .
  ultimately show ?case by simp
qed

lemma scripted_ok: "reader_ok scripted"
  unfolding reader_ok_def
proof (intro allI)
  fix r :: "read_result list" and n
  show "length (fst (fst (scripted r n))) \<le> n"
    by (cases "(r, n)" rule: scripted.cases) auto
qed

lemma endless_ok: "reader_ok endless"
  by (simp add: reader_ok_def endless_def)

lemma endless_reads: "n \<ge> 4 \<Longrightarrow> reads_ok endless n u (replicate k ''tick'')"
  by (induction k) (simp_all add: endless_def)

lemma flushed_relay_events: "flushed_after_every_write (relay_events ds)"
  by (induction ds) (simp_all add: relay_events_def)

subsection \<open>The copy\<close>

lemma Write_result:
  "fst (Write w p) = (p = [] \<or> write_ok (implicit_OK w))"
  by (simp add: Write_def Let_def)

lemma Write_limit:
  "w_limit (snd (Write w p))
     = (if p \<noteq> [] \<and> write_ok (implicit_OK w) then map_option (\<lambda>k. k - 1) (w_limit w) else w_limit w)"
  by (simp add: Write_def Let_def implicit_OK_frame)

lemma can_take_cong:
  "w_status w' = w_status w \<Longrightarrow> w_limit w' = w_limit w \<Longrightarrow> can_take w' ds = can_take w ds"
  by (simp add: can_take_def)

lemma can_take_Nil: "can_take w []"
  by (simp add: can_take_def)

lemma can_take_empty: "can_take w ([] # ds) = can_take w ds"
  by (simp add: can_take_def)

lemma can_take_Cons:
  "d \<noteq> [] \<Longrightarrow> can_take w (d # ds) = (write_ok (implicit_OK w) \<and> can_take (snd (Write w d)) ds)"
  by (auto simp add: can_take_def Let_def write_ok_def bodyAllowed_def Write_status Write_limit
      implicit_OK_status implicit_OK_frame split: option.splits)

lemma can_take_append: "can_take w (ds @ es) \<Longrightarrow> can_take w ds"
  by (auto simp add: can_take_def Let_def split: option.splits)

lemma copy_step_frame:
  assumes "w2 = (if d \<noteq> [] then snd (Write (w\<lparr>w_out := w_out w @ [ReadBody d]\<rparr>) d)
                 else w\<lparr>w_out := w_out w @ [ReadBody d]\<rparr>)"
  shows "w_out w2 = w_out w @ copy_events [d]"
    and "w_header w2 = w_header w" and "w_flusher w2 = w_flusher w" and "logs w2 = logs w"
    and "daemon_calls w2 = daemon_calls w" and "open_bodies w2 = open_bodies w"
    and "w_status w = Some c \<Longrightarrow> w_status w2 = Some c \<and> w_sent_header w2 = w_sent_header w"
  using assms
  by (simp_all add: copy_events_def Write_out Write_frame Write_status)

lemma io_Copy_Suc:
  "io_Copy (Suc n) rd w body =
    (let d = fst (fst (rd body 32768)); err = snd (fst (rd body 32768));
         w1 = w\<lparr>w_out := w_out w @ [ReadBody d]\<rparr>;
         w2 = (if d \<noteq> [] then snd (Write w1 d) else w1)
     in if d \<noteq> [] \<and> \<not> write_ok (implicit_OK w1) then (Returned, w2)
        else case err of
               None \<Rightarrow> io_Copy n rd w2 (snd (rd body 32768))
             | Some e \<Rightarrow> (Returned, w2))"
proof (cases "rd body 32768")
  case (Pair res body')
  then show ?thesis
  proof (cases res)
    case (Pair d err)
    show ?thesis
    proof (cases "Write (w\<lparr>w_out := w_out w @ [ReadBody d]\<rparr>) d")
      case (Pair ok w2)
      with Write_result [of "w\<lparr>w_out := w_out w @ [ReadBody d]\<rparr>" d]
      have "ok = (d = [] \<or> write_ok (implicit_OK (w\<lparr>w_out := w_out w @ [ReadBody d]\<rparr>)))"
        by simp
      with Pair \<open>res = (d, err)\<close> \<open>rd body 32768 = (res, body')\<close> show ?thesis
        by (auto simp add: Read_def Let_def split: option.splits)
    qed
  qed
qed

lemma io_Copy_frame:
  "fst (io_Copy n rd w body) \<noteq> Panicked
   \<and> w_header (snd (io_Copy n rd w body)) = w_header w
   \<and> w_flusher (snd (io_Copy n rd w body)) = w_flusher w
   \<and> logs (snd (io_Copy n rd w body)) = logs w
   \<and> daemon_calls (snd (io_Copy n rd w body)) = daemon_calls w
   \<and> open_bodies (snd (io_Copy n rd w body)) = open_bodies w
   \<and> (\<forall>c. w_status w = Some c \<longrightarrow>
         w_status (snd (io_Copy n rd w body)) = Some c
         \<and> w_sent_header (snd (io_Copy n rd w body)) = w_sent_header w)"
proof (induction n arbitrary: w body)
  case 0
  show ?case by simp
next
  case (Suc n)
  define d where "d = fst (fst (rd body 32768))"
  define w2 where "w2 = (if d \<noteq> [] then snd (Write (w\<lparr>w_out := w_out w @ [ReadBody d]\<rparr>) d)
                 else w\<lparr>w_out := w_out w @ [ReadBody d]\<rparr>)"
  note fr = copy_step_frame [OF w2_def]
  have "io_Copy (Suc n) rd w body = (Returned, w2)
        \<or> io_Copy (Suc n) rd w body = io_Copy n rd w2 (snd (rd body 32768))"
    by (simp add: io_Copy_Suc Let_def d_def w2_def del: io_Copy.simps split: option.splits)
  then show ?case
  proof
    assume "io_Copy (Suc n) rd w body = (Returned, w2)"
    with fr show ?thesis by simp
  next
    assume "io_Copy (Suc n) rd w body = io_Copy n rd w2 (snd (rd body 32768))"
    with Suc.IH [of w2 "snd (rd body 32768)"] fr show ?thesis by simp
  qed
qed

text \<open>No flush is ever made by the copy.\<close>

lemma io_Copy_no_flush:
  "\<exists>evs. w_out (snd (io_Copy n rd w body)) = w_out w @ evs \<and> Flushed \<notin> set evs"
proof (induction n arbitrary: w body)
  case 0
  show ?case by simp
next
  case (Suc n)
  define d where "d = fst (fst (rd body 32768))"
  define w2 where "w2 = (if d \<noteq> [] then snd (Write (w\<lparr>w_out := w_out w @ [ReadBody d]\<rparr>) d)
                 else w\<lparr>w_out := w_out w @ [ReadBody d]\<rparr>)"
  note fr = copy_step_frame [OF w2_def]
  have ce: "Flushed \<notin> set (copy_events [d])" by (simp add: copy_events_def)
  have "io_Copy (Suc n) rd w body = (Returned, w2)
        \<or> io_Copy (Suc n) rd w body = io_Copy n rd w2 (snd (rd body 32768))"
    by (simp add: io_Copy_Suc Let_def d_def w2_def del: io_Copy.simps split: option.splits)
  then show ?case
  proof
    assume "io_Copy (Suc n) rd w body = (Returned, w2)"
    with fr(1) ce show ?thesis by simp
  next
    assume eq: "io_Copy (Suc n) rd w body = io_Copy n rd w2 (snd (rd body 32768))"
    from Suc.IH [of w2 "snd (rd body 32768)"] obtain evs where
      "w_out (snd (io_Copy n rd w2 (snd (rd body 32768)))) = w_out w2 @ evs" "Flushed \<notin> set evs"
      by blast
    with eq fr(1) ce have "w_out (snd (io_Copy (Suc n) rd w body)) = w_out w @ (copy_events [d] @ evs)
        \<and> Flushed \<notin> set (copy_events [d] @ evs)" by simp
    then show ?thesis by blast
  qed
qed

lemma io_Copy_prefix:
  "reads_ok rd 32768 body ds \<Longrightarrow> can_take w ds \<Longrightarrow>
   fst (io_Copy (length ds) rd w body) = Running
   \<and> w_out (snd (io_Copy (length ds) rd w body)) = w_out w @ copy_events ds"
proof (induction ds arbitrary: w body)
  case Nil
  show ?case by (simp add: copy_events_def)
next
  case (Cons d ds)
  define w1 where "w1 = w\<lparr>w_out := w_out w @ [ReadBody d]\<rparr>"
  define w2 where "w2 = (if d \<noteq> [] then snd (Write (w\<lparr>w_out := w_out w @ [ReadBody d]\<rparr>) d)
                 else w\<lparr>w_out := w_out w @ [ReadBody d]\<rparr>)"
  note fr = copy_step_frame [OF w2_def]
  from Cons.prems have rd: "fst (rd body 32768) = (d, None)"
    and rest: "reads_ok rd 32768 (snd (rd body 32768)) ds" by simp_all
  have ct: "can_take w1 (d # ds)"
    using Cons.prems(2) can_take_cong [of w1 w "d # ds"] by (simp add: w1_def)
  have ok: "d \<noteq> [] \<longrightarrow> write_ok (implicit_OK w1)" and ct2: "can_take w2 ds"
    using ct can_take_Cons [of d w1 ds] can_take_empty [of w1 ds]
    by (auto simp add: w2_def w1_def)
  from rd ok have "io_Copy (length (d # ds)) rd w body = io_Copy (length ds) rd w2 (snd (rd body 32768))"
    by (auto simp add: io_Copy_Suc Let_def w2_def w1_def simp del: io_Copy.simps)
  moreover have "copy_events (d # ds) = copy_events [d] @ copy_events ds"
    by (simp add: copy_events_def)
  ultimately show ?case using Cons.IH [OF rest ct2] fr by simp
qed

lemma io_Copy_end:
  "reads_then rd 32768 body ds (dl, Some e) \<Longrightarrow> can_take w (ds @ [dl]) \<Longrightarrow>
   fst (io_Copy (Suc (length ds)) rd w body) = Returned
   \<and> w_out (snd (io_Copy (Suc (length ds)) rd w body)) = w_out w @ copy_events (ds @ [dl])"
proof (induction ds arbitrary: w body)
  case Nil
  define w1 where "w1 = w\<lparr>w_out := w_out w @ [ReadBody dl]\<rparr>"
  define w2 where "w2 = (if dl \<noteq> [] then snd (Write (w\<lparr>w_out := w_out w @ [ReadBody dl]\<rparr>) dl)
                 else w\<lparr>w_out := w_out w @ [ReadBody dl]\<rparr>)"
  note fr = copy_step_frame [OF w2_def]
  from Nil have "io_Copy (Suc 0) rd w body = (Returned, w2)"
    by (simp add: io_Copy_Suc Let_def w2_def del: io_Copy.simps)
  with fr show ?case by simp
next
  case (Cons d ds)
  define w1 where "w1 = w\<lparr>w_out := w_out w @ [ReadBody d]\<rparr>"
  define w2 where "w2 = (if d \<noteq> [] then snd (Write (w\<lparr>w_out := w_out w @ [ReadBody d]\<rparr>) d)
                 else w\<lparr>w_out := w_out w @ [ReadBody d]\<rparr>)"
  note fr = copy_step_frame [OF w2_def]
  from Cons.prems have rd: "fst (rd body 32768) = (d, None)"
    and rest: "reads_then rd 32768 (snd (rd body 32768)) ds (dl, Some e)" by simp_all
  have ct: "can_take w1 (d # (ds @ [dl]))"
    using Cons.prems(2) can_take_cong [of w1 w "d # (ds @ [dl])"] by (simp add: w1_def)
  have ok: "d \<noteq> [] \<longrightarrow> write_ok (implicit_OK w1)" and ct2: "can_take w2 (ds @ [dl])"
    using ct can_take_Cons [of d w1 "ds @ [dl]"] can_take_empty [of w1 "ds @ [dl]"]
    by (auto simp add: w2_def w1_def)
  from rd ok have "io_Copy (Suc (length (d # ds))) rd w body
      = io_Copy (Suc (length ds)) rd w2 (snd (rd body 32768))"
    by (auto simp add: io_Copy_Suc [of "Suc (length ds)"] Let_def w2_def w1_def simp del: io_Copy.simps)
  moreover have "copy_events ((d # ds) @ [dl]) = copy_events [d] @ copy_events (ds @ [dl])"
    by (simp add: copy_events_def)
  ultimately show ?case using Cons.IH [OF rest ct2] fr by simp
qed

text \<open>A write that fails ends the copy: nothing is read after it.\<close>

lemma io_Copy_refused:
  "reads_then rd 32768 body ds (d, err) \<Longrightarrow> can_take w ds \<Longrightarrow> \<not> can_take w (ds @ [d]) \<Longrightarrow>
   fst (io_Copy (Suc (length ds) + m) rd w body) = Returned
   \<and> w_out (snd (io_Copy (Suc (length ds) + m) rd w body))
       = w_out w @ copy_events ds @ [ReadBody d, Wrote d]"
proof (induction ds arbitrary: w body)
  case Nil
  define w1 where "w1 = w\<lparr>w_out := w_out w @ [ReadBody d]\<rparr>"
  from Nil.prems(3) have ne: "d \<noteq> []" by (auto simp add: can_take_def)
  from Nil.prems(3) have "\<not> can_take w1 [d]"
    using can_take_cong [of w1 w "[d]"] by (simp add: w1_def)
  with ne have no: "\<not> write_ok (implicit_OK w1)"
    by (simp add: can_take_Cons can_take_Nil)
  from Nil.prems(1) ne no have "io_Copy (Suc m) rd w body = (Returned, snd (Write w1 d))"
    by (simp add: io_Copy_Suc Let_def w1_def del: io_Copy.simps)
  then show ?case by (simp add: Write_out w1_def copy_events_def)
next
  case (Cons c ds)
  define w1 where "w1 = w\<lparr>w_out := w_out w @ [ReadBody c]\<rparr>"
  define w2 where "w2 = (if c \<noteq> [] then snd (Write (w\<lparr>w_out := w_out w @ [ReadBody c]\<rparr>) c)
                 else w\<lparr>w_out := w_out w @ [ReadBody c]\<rparr>)"
  note fr = copy_step_frame [OF w2_def]
  from Cons.prems have rd: "fst (rd body 32768) = (c, None)"
    and rest: "reads_then rd 32768 (snd (rd body 32768)) ds (d, err)" by simp_all
  have ct: "can_take w1 (c # ds)"
    using Cons.prems(2) can_take_cong [of w1 w "c # ds"] by (simp add: w1_def)
  have nct: "\<not> can_take w1 (c # (ds @ [d]))"
    using Cons.prems(3) can_take_cong [of w1 w "c # (ds @ [d])"] by (simp add: w1_def)
  have ok: "c \<noteq> [] \<longrightarrow> write_ok (implicit_OK w1)" and ct2: "can_take w2 ds"
    using ct can_take_Cons [of c w1 ds] can_take_empty [of w1 ds]
    by (auto simp add: w2_def w1_def)
  have nct2: "\<not> can_take w2 (ds @ [d])"
    using nct ok can_take_Cons [of c w1 "ds @ [d]"] can_take_empty [of w1 "ds @ [d]"]
    by (auto simp add: w2_def w1_def)
  from rd ok have "io_Copy (Suc (length (c # ds)) + m) rd w body
      = io_Copy (Suc (length ds) + m) rd w2 (snd (rd body 32768))"
    by (auto simp add: io_Copy_Suc [of "Suc (length ds + m)"] Let_def w2_def w1_def simp del: io_Copy.simps)
  moreover have "copy_events (c # ds) = copy_events [c] @ copy_events ds"
    by (simp add: copy_events_def)
  ultimately show ?case using Cons.IH [OF rest ct2 nct2] fr by simp
qed

text \<open>Once a loop has ended, following more reads changes nothing.\<close>

lemma io_Copy_more:
  "fst (io_Copy n rd w body) \<noteq> Running \<Longrightarrow> io_Copy (n + m) rd w body = io_Copy n rd w body"
proof (induction n arbitrary: w body)
  case 0
  then show ?case by simp
next
  case (Suc n)
  define d where "d = fst (fst (rd body 32768))"
  define w2 where "w2 = (if d \<noteq> [] then snd (Write (w\<lparr>w_out := w_out w @ [ReadBody d]\<rparr>) d)
                 else w\<lparr>w_out := w_out w @ [ReadBody d]\<rparr>)"
  have "(io_Copy (Suc n) rd w body = (Returned, w2) \<and> io_Copy (Suc (n + m)) rd w body = (Returned, w2))
        \<or> (io_Copy (Suc n) rd w body = io_Copy n rd w2 (snd (rd body 32768))
           \<and> io_Copy (Suc (n + m)) rd w body = io_Copy (n + m) rd w2 (snd (rd body 32768)))"
    by (simp add: io_Copy_Suc Let_def d_def w2_def del: io_Copy.simps split: option.splits)
  then show ?case
  proof
    assume "io_Copy (Suc n) rd w body = (Returned, w2) \<and> io_Copy (Suc (n + m)) rd w body = (Returned, w2)"
    then show ?thesis by simp
  next
    assume eq: "io_Copy (Suc n) rd w body = io_Copy n rd w2 (snd (rd body 32768))
           \<and> io_Copy (Suc (n + m)) rd w body = io_Copy (n + m) rd w2 (snd (rd body 32768))"
    with Suc.prems have "fst (io_Copy n rd w2 (snd (rd body 32768))) \<noteq> Running" by simp
    from Suc.IH [OF this] eq show ?thesis by simp
  qed
qed

lemma streamLoop_more:
  "fst (streamLoop n rd w body) \<noteq> Running \<Longrightarrow> streamLoop (n + m) rd w body = streamLoop n rd w body"
proof (induction n arbitrary: w body)
  case 0
  then show ?case by simp
next
  case (Suc n)
  define d where "d = fst (fst (rd body 4096))"
  define w2 where "w2 = (if length d > 0 then Flush (snd (Write (w\<lparr>w_out := w_out w @ [ReadBody d]\<rparr>) d))
               else w\<lparr>w_out := w_out w @ [ReadBody d]\<rparr>)"
  show ?case
  proof (cases "snd (fst (rd body 4096))")
    case None
    then have eq: "streamLoop (Suc n) rd w body = streamLoop n rd w2 (snd (rd body 4096))"
       "streamLoop (Suc (n + m)) rd w body = streamLoop (n + m) rd w2 (snd (rd body 4096))"
      by (simp_all add: streamLoop_Suc Let_def d_def w2_def del: streamLoop.simps)
    with Suc.prems have "fst (streamLoop n rd w2 (snd (rd body 4096))) \<noteq> Running" by simp
    from Suc.IH [OF this] eq show ?thesis by simp
  next
    case (Some e)
    then show ?thesis
      by (simp add: streamLoop_Suc Let_def del: streamLoop.simps)
  qed
qed

subsection \<open>The headers copied back\<close>

lemma add_values_frame:
  "w_out (add_values key vals w) = w_out w \<and> logs (add_values key vals w) = logs w
   \<and> w_status (add_values key vals w) = w_status w
   \<and> w_sent_header (add_values key vals w) = w_sent_header w
   \<and> w_flusher (add_values key vals w) = w_flusher w
   \<and> w_limit (add_values key vals w) = w_limit w
   \<and> daemon_calls (add_values key vals w) = daemon_calls w
   \<and> open_bodies (add_values key vals w) = open_bodies w"
  unfolding add_values_def by (induction vals arbitrary: w) simp_all

lemma copyResponseHeaders_frame:
  "w_out (copyResponseHeaders hdr w) = w_out w \<and> logs (copyResponseHeaders hdr w) = logs w
   \<and> w_status (copyResponseHeaders hdr w) = w_status w
   \<and> w_sent_header (copyResponseHeaders hdr w) = w_sent_header w
   \<and> w_flusher (copyResponseHeaders hdr w) = w_flusher w
   \<and> w_limit (copyResponseHeaders hdr w) = w_limit w
   \<and> daemon_calls (copyResponseHeaders hdr w) = daemon_calls w
   \<and> open_bodies (copyResponseHeaders hdr w) = open_bodies w"
proof (induction hdr arbitrary: w)
  case Nil
  show ?case by (simp add: copyResponseHeaders_def)
next
  case (Cons entry hdr)
  obtain key vals where e: "entry = (key, vals)" by (cases entry)
  have unfold: "copyResponseHeaders (entry # hdr) w = copyResponseHeaders hdr (add_values key vals w)"
    by (simp add: copyResponseHeaders_def e)
  show ?case
    unfolding unfold using Cons.IH [of "add_values key vals w"] add_values_frame [of key vals w]
    by simp
qed

lemma add_values_header:
  "w_header (add_values key vals w) k =
     (if CanonicalMIMEHeaderKey key = k \<and> vals \<noteq> []
      then Some ((case w_header w k of None \<Rightarrow> [] | Some vs \<Rightarrow> vs) @ vals)
      else w_header w k)"
  unfolding add_values_def
  by (induction vals arbitrary: w) (auto simp: Header_Add_def Let_def split: option.splits)

lemma copyResponseHeaders_header:
  "w_header (copyResponseHeaders hdr w) k =
     (if values_for hdr k = [] then w_header w k
      else Some ((case w_header w k of None \<Rightarrow> [] | Some vs \<Rightarrow> vs) @ values_for hdr k))"
proof (induction hdr arbitrary: w)
  case Nil
  show ?case by (simp add: copyResponseHeaders_def values_for_def)
next
  case (Cons entry hdr)
  obtain key vals where e: "entry = (key, vals)" by (cases entry)
  have unfold: "copyResponseHeaders (entry # hdr) w = copyResponseHeaders hdr (add_values key vals w)"
    by (simp add: copyResponseHeaders_def e)
  have vf: "values_for (entry # hdr) k
    = (if CanonicalMIMEHeaderKey key = k then vals else []) @ values_for hdr k"
    by (simp add: values_for_def e)
  show ?case
    unfolding unfold Cons.IH add_values_header vf
    by (auto split: option.splits)
qed

lemma copyResponseHeaders_with_values:
  "w_header (copyResponseHeaders hdr w) = with_values (w_header w) hdr"
  by (rule ext) (simp add: copyResponseHeaders_header with_values_def)

lemma values_for_member:
  "(key, vals) \<in> set hdr \<Longrightarrow> v \<in> set vals \<Longrightarrow> v \<in> set (values_for hdr (CanonicalMIMEHeaderKey key))"
  by (force simp: values_for_def)

lemma with_values_member:
  "(key, vals) \<in> set hdr \<Longrightarrow> v \<in> set vals \<Longrightarrow>
   \<exists>sent. with_values h hdr (CanonicalMIMEHeaderKey key) = Some sent \<and> v \<in> set sent"
  using values_for_member [of key vals hdr v] by (auto simp add: with_values_def)

lemma fold_forward_Some:
  "fold (\<lambda>(key, vals). forward_entry key vals) hdr m key = Some v \<Longrightarrow>
   m key = Some v \<or> (\<exists>vs. (key, v # vs) \<in> set hdr \<and> \<not> isHopByHopHeader key)"
proof (induction hdr arbitrary: m)
  case Nil
  then show ?case by simp
next
  case (Cons entry hdr)
  obtain k vals where e: "entry = (k, vals)" by (cases entry)
  from Cons.prems have "fold (\<lambda>(key, vals). forward_entry key vals) hdr (forward_entry k vals m) key = Some v"
    by (simp add: e)
  from Cons.IH [OF this] show ?case
  proof
    assume "forward_entry k vals m key = Some v"
    then show ?thesis
      by (cases vals) (auto simp add: forward_entry_def e split: if_splits)
  next
    assume "\<exists>vs. (key, v # vs) \<in> set hdr \<and> \<not> isHopByHopHeader key"
    then show ?thesis by auto
  qed
qed

lemma buildHeaders_Some:
  "buildHeaders hdr key = Some v \<Longrightarrow> \<exists>vs. (key, v # vs) \<in> set hdr \<and> \<not> isHopByHopHeader key"
  using fold_forward_Some [of hdr Map.empty key v] by (simp add: buildHeaders_def)

subsection \<open>The header that is sent\<close>

lemma relay_step_sent:
  assumes "w2 = (if length d > 0 then Flush (snd (Write (w\<lparr>w_out := w_out w @ [ReadBody d]\<rparr>) d))
                 else w\<lparr>w_out := w_out w @ [ReadBody d]\<rparr>)"
  shows "w_sent_header w2 = w_sent_header w \<or> w_sent_header w2 = Some (w_header w)"
  using assms by (simp add: Flush_status Write_status split: option.splits)

lemma copy_step_sent:
  assumes "w2 = (if d \<noteq> [] then snd (Write (w\<lparr>w_out := w_out w @ [ReadBody d]\<rparr>) d)
                 else w\<lparr>w_out := w_out w @ [ReadBody d]\<rparr>)"
  shows "w_sent_header w2 = w_sent_header w \<or> w_sent_header w2 = Some (w_header w)"
  using assms by (simp add: Write_status split: option.splits)

lemma streamLoop_sent:
  "w_sent_header (snd (streamLoop n rd w body)) = w_sent_header w
   \<or> w_sent_header (snd (streamLoop n rd w body)) = Some (w_header w)"
proof (induction n arbitrary: w body)
  case 0
  show ?case by simp
next
  case (Suc n)
  define d where "d = fst (fst (rd body 4096))"
  define w2 where "w2 = (if length d > 0 then Flush (snd (Write (w\<lparr>w_out := w_out w @ [ReadBody d]\<rparr>) d))
               else w\<lparr>w_out := w_out w @ [ReadBody d]\<rparr>)"
  note fr = relay_step_frame [OF w2_def] relay_step_sent [OF w2_def]
  show ?case
  proof (cases "snd (fst (rd body 4096))")
    case None
    then have "streamLoop (Suc n) rd w body = streamLoop n rd w2 (snd (rd body 4096))"
      by (simp add: streamLoop_Suc Let_def d_def w2_def del: streamLoop.simps)
    with Suc.IH [of w2 "snd (rd body 4096)"] fr(2,8) show ?thesis by auto
  next
    case (Some e)
    then have "streamLoop (Suc n) rd w body
       = (Returned, case e of EOF \<Rightarrow> w2 | ReadError msg \<Rightarrow> log_Printf w2 (''Stream error: '' @ msg))"
      by (simp add: streamLoop_Suc Let_def d_def w2_def del: streamLoop.simps split: read_error.splits)
    with fr(8) show ?thesis by (auto simp add: log_Printf_frame split: read_error.splits)
  qed
qed

lemma io_Copy_sent:
  "w_sent_header (snd (io_Copy n rd w body)) = w_sent_header w
   \<or> w_sent_header (snd (io_Copy n rd w body)) = Some (w_header w)"
proof (induction n arbitrary: w body)
  case 0
  show ?case by simp
next
  case (Suc n)
  define d where "d = fst (fst (rd body 32768))"
  define w2 where "w2 = (if d \<noteq> [] then snd (Write (w\<lparr>w_out := w_out w @ [ReadBody d]\<rparr>) d)
                 else w\<lparr>w_out := w_out w @ [ReadBody d]\<rparr>)"
  note fr = copy_step_frame [OF w2_def] copy_step_sent [OF w2_def]
  have "io_Copy (Suc n) rd w body = (Returned, w2)
        \<or> io_Copy (Suc n) rd w body = io_Copy n rd w2 (snd (rd body 32768))"
    by (simp add: io_Copy_Suc Let_def d_def w2_def del: io_Copy.simps split: option.splits)
  then show ?case
  proof
    assume "io_Copy (Suc n) rd w body = (Returned, w2)"
    with fr(8) show ?thesis by simp
  next
    assume "io_Copy (Suc n) rd w body = io_Copy n rd w2 (snd (rd body 32768))"
    with Suc.IH [of w2 "snd (rd body 32768)"] fr(2,8) show ?thesis by auto
  qed
qed

subsection \<open>The relay and the copy of a response\<close>

lemma streamResponse_frame:
  "fst (streamResponse n rd w body) \<noteq> Panicked
   \<and> w_header (snd (streamResponse n rd w body)) = w_header w
   \<and> w_flusher (snd (streamResponse n rd w body)) = w_flusher w
   \<and> daemon_calls (snd (streamResponse n rd w body)) = daemon_calls w
   \<and> open_bodies (snd (streamResponse n rd w body)) = open_bodies w
   \<and> (\<forall>c. w_status w = Some c \<longrightarrow>
         w_status (snd (streamResponse n rd w body)) = Some c
         \<and> w_sent_header (snd (streamResponse n rd w body)) = w_sent_header w)"
  using streamLoop_frame [of n rd w body] io_Copy_frame [of n rd w body]
  by (simp add: streamResponse_def)

lemma streamResponse_sent:
  "w_sent_header (snd (streamResponse n rd w body)) = w_sent_header w
   \<or> w_sent_header (snd (streamResponse n rd w body)) = Some (w_header w)"
  using streamLoop_sent [of n rd w body] io_Copy_sent [of n rd w body]
  by (simp add: streamResponse_def)

subsection \<open>The handlers\<close>

lemma http_Error_Returned:
  "100 \<le> code \<Longrightarrow> code \<le> 999 \<Longrightarrow> fst (http_Error w msg code) = Returned"
  by (simp add: http_Error_def Let_def WriteHeader_def)

lemma handleProxy_Inl:
  assumes "RequestRaw dc (req_Method r) (req_RequestURI r) (buildHeaders (req_Header r)) (req_Body r)
            = Inl err"
  shows "handleProxy dc n w r =
     http_Error (log_Printf (w\<lparr>daemon_calls := daemon_calls w
                   @ [(req_Method r, req_RequestURI r, buildHeaders (req_Header r))]\<rparr>)
                 (''Docker request failed: '' @ err))
       (''Docker request failed: '' @ err) 502"
  using assms by (simp add: handleProxy_def call_RequestRaw_def Let_def)

text \<open>After a response of the daemon: the writer when the body is about to be relayed, and
  what \<open>handleProxy\<close> makes of the end of the relay.\<close>

lemma handleProxy_Inr:
  assumes "RequestRaw dc (req_Method r) (req_RequestURI r) (buildHeaders (req_Header r)) (req_Body r)
            = Inr resp"
  shows "handleProxy dc n w r =
    (case WriteHeader (copyResponseHeaders (resp_Header resp)
            (w\<lparr>daemon_calls := daemon_calls w
                   @ [(req_Method r, req_RequestURI r, buildHeaders (req_Header r))],
               open_bodies := open_bodies w + 1\<rparr>)) (resp_StatusCode resp) of
       (Panicked, w3) \<Rightarrow> (Panicked, Body_Close w3)
     | (x3, w3) \<Rightarrow>
         (case (if isStreamingRequest (req_Path r) (req_Method r)
                then streamResponse n (body_Read dc) w3 (resp_Body resp)
                else io_Copy n (body_Read dc) w3 (resp_Body resp)) of
            (Running, w4) \<Rightarrow> (Running, w4)
          | (x, w4) \<Rightarrow> (x, Body_Close w4)))"
  using assms by (simp add: handleProxy_def call_RequestRaw_def Let_def)

lemma handleProxy_calls_bodies:
  "daemon_calls (snd (handleProxy dc n w r))
     = daemon_calls w @ [(req_Method r, req_RequestURI r, buildHeaders (req_Header r))]
   \<and> open_bodies (snd (handleProxy dc n w r))
     = (if fst (handleProxy dc n w r) = Running then open_bodies w + 1 else open_bodies w)"
proof (cases "RequestRaw dc (req_Method r) (req_RequestURI r) (buildHeaders (req_Header r)) (req_Body r)")
  case (Inl err)
  show ?thesis
    unfolding handleProxy_Inl [OF Inl]
    by (simp add: http_Error_frame http_Error_Returned log_Printf_frame)
next
  case (Inr resp)
  define w2 where "w2 = copyResponseHeaders (resp_Header resp)
            (w\<lparr>daemon_calls := daemon_calls w
                   @ [(req_Method r, req_RequestURI r, buildHeaders (req_Header r))],
               open_bodies := open_bodies w + 1\<rparr>)"
  have w2: "daemon_calls w2 = daemon_calls w @ [(req_Method r, req_RequestURI r, buildHeaders (req_Header r))]"
    "open_bodies w2 = open_bodies w + 1"
    by (simp_all add: w2_def copyResponseHeaders_frame)
  obtain x3 w3 where wh: "WriteHeader w2 (resp_StatusCode resp) = (x3, w3)"
    by (cases "WriteHeader w2 (resp_StatusCode resp)")
  with WriteHeader_frame [of w2 "resp_StatusCode resp"] WriteHeader_not_Running [of w2 "resp_StatusCode resp"] w2
  have w3: "daemon_calls w3 = daemon_calls w @ [(req_Method r, req_RequestURI r, buildHeaders (req_Header r))]"
    "open_bodies w3 = open_bodies w + 1" "x3 \<noteq> Running"
    by simp_all
  show ?thesis
  proof (cases "x3 = Panicked")
    case True
    with wh have "handleProxy dc n w r = (Panicked, Body_Close w3)"
      by (simp add: handleProxy_Inr [OF Inr, of n w, folded w2_def])
    with w3 show ?thesis by (simp add: Body_Close_frame)
  next
    case False
    define res where "res = (if isStreamingRequest (req_Path r) (req_Method r)
                then streamResponse n (body_Read dc) w3 (resp_Body resp)
                else io_Copy n (body_Read dc) w3 (resp_Body resp))"
    obtain x4 w4 where r4: "res = (x4, w4)" by (cases res)
    have fr: "daemon_calls w4 = daemon_calls w3 \<and> open_bodies w4 = open_bodies w3"
      using r4 streamResponse_frame [of n "body_Read dc" w3 "resp_Body resp"]
        io_Copy_frame [of n "body_Read dc" w3 "resp_Body resp"]
      by (simp add: res_def split: if_splits)
    from False w3(3) wh r4
    have "handleProxy dc n w r = (if x4 = Running then (Running, w4) else (x4, Body_Close w4))"
      by (cases x3; cases x4) (simp_all add: handleProxy_Inr [OF Inr, of n w, folded w2_def] res_def [symmetric])
    with fr w3 show ?thesis by (simp add: Body_Close_frame)
  qed
qed

lemma handleProxy_headers:
  assumes "RequestRaw dc (req_Method r) (req_RequestURI r) (buildHeaders (req_Header r)) (req_Body r)
            = Inr resp"
  shows "w_header (snd (handleProxy dc n w r)) = with_values (w_header w) (resp_Header resp)"
    and "w_status w = None \<Longrightarrow> w_sent_header w = None \<Longrightarrow>
         w_sent_header (snd (handleProxy dc n w r)) = None
         \<or> w_sent_header (snd (handleProxy dc n w r)) = Some (with_values (w_header w) (resp_Header resp))"
    and "w_status w = None \<Longrightarrow> resp_StatusCode resp = 101 \<or> 200 \<le> resp_StatusCode resp \<Longrightarrow>
         resp_StatusCode resp \<le> 999 \<Longrightarrow>
         w_status (snd (handleProxy dc n w r)) = Some (resp_StatusCode resp)
         \<and> w_sent_header (snd (handleProxy dc n w r)) = Some (with_values (w_header w) (resp_Header resp))"
proof -
  define w2 where "w2 = copyResponseHeaders (resp_Header resp)
            (w\<lparr>daemon_calls := daemon_calls w
                   @ [(req_Method r, req_RequestURI r, buildHeaders (req_Header r))],
               open_bodies := open_bodies w + 1\<rparr>)"
  have w2: "w_header w2 = with_values (w_header w) (resp_Header resp)"
    "w_status w2 = w_status w" "w_sent_header w2 = w_sent_header w"
    by (simp_all add: w2_def copyResponseHeaders_frame copyResponseHeaders_with_values)
  obtain x3 w3 where wh: "WriteHeader w2 (resp_StatusCode resp) = (x3, w3)"
    by (cases "WriteHeader w2 (resp_StatusCode resp)")
  with WriteHeader_frame [of w2 "resp_StatusCode resp"] WriteHeader_not_Running [of w2 "resp_StatusCode resp"] w2
  have w3: "w_header w3 = with_values (w_header w) (resp_Header resp)" "x3 \<noteq> Running"
    by simp_all
  have s3: "w_status w = None \<Longrightarrow> w_sent_header w = None \<Longrightarrow>
        w_sent_header w3 = None \<or> w_sent_header w3 = Some (with_values (w_header w) (resp_Header resp))"
    using wh w2 by (auto simp add: WriteHeader_def send_header_def split: if_splits)
  have c3: "w_status w = None \<Longrightarrow> resp_StatusCode resp = 101 \<or> 200 \<le> resp_StatusCode resp \<Longrightarrow>
         resp_StatusCode resp \<le> 999 \<Longrightarrow>
         x3 = Returned \<and> w_status w3 = Some (resp_StatusCode resp)
         \<and> w_sent_header w3 = Some (with_values (w_header w) (resp_Header resp))"
    using wh w2 by (auto simp add: WriteHeader_def send_header_def split: if_splits)
  define res where "res = (if isStreamingRequest (req_Path r) (req_Method r)
                then streamResponse n (body_Read dc) w3 (resp_Body resp)
                else io_Copy n (body_Read dc) w3 (resp_Body resp))"
  obtain x4 w4 where r4: "res = (x4, w4)" by (cases res)
  have fr: "w_header w4 = w_header w3"
    "w_sent_header w4 = w_sent_header w3 \<or> w_sent_header w4 = Some (w_header w3)"
    "\<And>c. w_status w3 = Some c \<Longrightarrow> w_status w4 = Some c \<and> w_sent_header w4 = w_sent_header w3"
    using r4 streamResponse_frame [of n "body_Read dc" w3 "resp_Body resp"]
      io_Copy_frame [of n "body_Read dc" w3 "resp_Body resp"]
      streamResponse_sent [of n "body_Read dc" w3 "resp_Body resp"]
      io_Copy_sent [of n "body_Read dc" w3 "resp_Body resp"]
    by (simp_all add: res_def split: if_splits)
  have hp: "handleProxy dc n w r
      = (if x3 = Panicked then (Panicked, Body_Close w3)
         else if x4 = Running then (Running, w4) else (x4, Body_Close w4))"
    using w3(2) wh r4
    by (cases x3; cases x4) (simp_all add: handleProxy_Inr [OF assms, of n w, folded w2_def] res_def [symmetric])
  show "w_header (snd (handleProxy dc n w r)) = with_values (w_header w) (resp_Header resp)"
    using hp w3 fr(1) by (simp add: Body_Close_frame)
  show "w_sent_header (snd (handleProxy dc n w r)) = None
         \<or> w_sent_header (snd (handleProxy dc n w r)) = Some (with_values (w_header w) (resp_Header resp))"
    if "w_status w = None" "w_sent_header w = None"
    using hp s3 [OF that] fr(2) w3(1) by (auto simp add: Body_Close_frame)
  show "w_status (snd (handleProxy dc n w r)) = Some (resp_StatusCode resp)
         \<and> w_sent_header (snd (handleProxy dc n w r)) = Some (with_values (w_header w) (resp_Header resp))"
    if "w_status w = None" "resp_StatusCode resp = 101 \<or> 200 \<le> resp_StatusCode resp"
       "resp_StatusCode resp \<le> 999"
    using hp c3 [OF that] fr(3) by (auto simp add: Body_Close_frame)
qed

text \<open>The writer when the relay of a response starts.\<close>

lemma handleProxy_relay:
  assumes d: "RequestRaw dc (req_Method r) (req_RequestURI r) (buildHeaders (req_Header r)) (req_Body r)
            = Inr resp"
    and fresh: "w_status w = None"
    and code: "100 \<le> resp_StatusCode resp" "resp_StatusCode resp \<le> 999"
  shows "\<exists>w3. w_out w3 = w_out w @ header_events (resp_StatusCode resp) \<and> logs w3 = logs w
           \<and> w_flusher w3 = w_flusher w \<and> open_bodies w3 = open_bodies w + 1
           \<and> w_limit w3 = w_limit w
           \<and> w_status w3 = (if header_events (resp_StatusCode resp) = [] then Some (resp_StatusCode resp)
                             else None)
           \<and> (\<forall>n. handleProxy dc n w r =
                (case (if isStreamingRequest (req_Path r) (req_Method r)
                       then streamResponse n (body_Read dc) w3 (resp_Body resp)
                       else io_Copy n (body_Read dc) w3 (resp_Body resp)) of
                   (Running, w4) \<Rightarrow> (Running, w4)
                 | (x, w4) \<Rightarrow> (x, Body_Close w4)))"
proof -
  define w2 where "w2 = copyResponseHeaders (resp_Header resp)
            (w\<lparr>daemon_calls := daemon_calls w
                   @ [(req_Method r, req_RequestURI r, buildHeaders (req_Header r))],
               open_bodies := open_bodies w + 1\<rparr>)"
  have w2: "w_out w2 = w_out w" "logs w2 = logs w" "w_flusher w2 = w_flusher w"
    "open_bodies w2 = open_bodies w + 1" "w_status w2 = None" "w_limit w2 = w_limit w"
    using fresh by (simp_all add: w2_def copyResponseHeaders_frame)
  define w3 where "w3 = snd (WriteHeader w2 (resp_StatusCode resp))"
  from WriteHeader_fresh [OF w2(5) code] have wh: "WriteHeader w2 (resp_StatusCode resp) = (Returned, w3)"
    and out: "w_out w3 = w_out w2 @ header_events (resp_StatusCode resp)"
    and st: "w_status w3 = (if header_events (resp_StatusCode resp) = [] then Some (resp_StatusCode resp)
                             else None)"
    by (simp_all add: w3_def prod_eq_iff)
  have "\<forall>n. handleProxy dc n w r =
                (case (if isStreamingRequest (req_Path r) (req_Method r)
                       then streamResponse n (body_Read dc) w3 (resp_Body resp)
                       else io_Copy n (body_Read dc) w3 (resp_Body resp)) of
                   (Running, w4) \<Rightarrow> (Running, w4)
                 | (x, w4) \<Rightarrow> (x, Body_Close w4))"
    using wh by (simp add: handleProxy_Inr [OF d, of _ w, folded w2_def])
  with out st w2 WriteHeader_frame [of w2 "resp_StatusCode resp"] show ?thesis
    unfolding w3_def [symmetric] by auto
qed

lemma loggingMiddleware_Returned:
  "inner n (log_Printf w (''--> '' @ req_Method r @ '' '' @ req_Path r)) r = (Returned, w') \<Longrightarrow>
   loggingMiddleware elapsed inner n w r
     = (Returned, log_Printf w' (''<-- '' @ req_Method r @ '' '' @ req_Path r @ '' ('' @ elapsed @ '')''))"
  by (simp add: loggingMiddleware_def)

lemma handleProxy_panic:
  assumes d: "RequestRaw dc (req_Method r) (req_RequestURI r) (buildHeaders (req_Header r)) (req_Body r)
            = Inr resp"
    and fresh: "w_status w = None"
    and code: "resp_StatusCode resp < 100 \<or> resp_StatusCode resp > 999"
  shows "fst (handleProxy dc n w r) = Panicked"
proof -
  define w2 where "w2 = copyResponseHeaders (resp_Header resp)
            (w\<lparr>daemon_calls := daemon_calls w
                   @ [(req_Method r, req_RequestURI r, buildHeaders (req_Header r))],
               open_bodies := open_bodies w + 1\<rparr>)"
  have "w_status w2 = None" using fresh by (simp add: w2_def copyResponseHeaders_frame)
  with code have "WriteHeader w2 (resp_StatusCode resp) = (Panicked, w2)"
    by (auto simp add: WriteHeader_def)
  then show ?thesis by (simp add: handleProxy_Inr [OF d, of n w, folded w2_def])
qed

lemma handleProxy_stream:
  assumes d: "RequestRaw dc (req_Method r) (req_RequestURI r) (buildHeaders (req_Header r)) (req_Body r)
            = Inr resp"
    and fresh: "w_status w = None"
    and code: "100 \<le> resp_StatusCode resp" "resp_StatusCode resp \<le> 999"
    and streaming: "isStreamingRequest (req_Path r) (req_Method r)" "w_flusher w"
  shows "reads_ok (body_Read dc) 4096 (resp_Body resp) ds \<Longrightarrow>
         \<exists>w'. handleProxy dc (length ds) w r = (Running, w')
           \<and> w_out w' = w_out w @ header_events (resp_StatusCode resp) @ relay_events ds
           \<and> logs w' = logs w"
    and "reads_then (body_Read dc) 4096 (resp_Body resp) ds (dl, Some e) \<Longrightarrow>
         \<exists>w'. (\<forall>m. handleProxy dc (Suc (length ds) + m) w r = (Returned, w'))
           \<and> w_out w' = w_out w @ header_events (resp_StatusCode resp) @ relay_events (ds @ [dl])
           \<and> logs w' = logs w @ stream_log e"
    and "fst (handleProxy dc n w r) = Returned \<Longrightarrow>
         \<exists>ds dl e. reads_then (body_Read dc) 4096 (resp_Body resp) ds (dl, Some e) \<and> length ds < n"
proof -
  from handleProxy_relay [OF d fresh code] obtain w3 where
    w3: "w_out w3 = w_out w @ header_events (resp_StatusCode resp)" "logs w3 = logs w"
        "w_flusher w3 = w_flusher w"
    and hp0: "\<And>n. handleProxy dc n w r =
                (case (if isStreamingRequest (req_Path r) (req_Method r)
                       then streamResponse n (body_Read dc) w3 (resp_Body resp)
                       else io_Copy n (body_Read dc) w3 (resp_Body resp)) of
                   (Running, w4) \<Rightarrow> (Running, w4)
                 | (x, w4) \<Rightarrow> (x, Body_Close w4))"
    by blast
  have hp: "handleProxy dc n w r =
                (case streamLoop n (body_Read dc) w3 (resp_Body resp) of
                   (Running, w4) \<Rightarrow> (Running, w4)
                 | (x, w4) \<Rightarrow> (x, Body_Close w4))" for n
    using streaming w3(3) by (simp add: hp0 streamResponse_def)
  {
    assume "reads_ok (body_Read dc) 4096 (resp_Body resp) ds"
    from streamLoop_prefix [OF this, of w3] obtain w4 where
      "streamLoop (length ds) (body_Read dc) w3 (resp_Body resp) = (Running, w4)"
      "w_out w4 = w_out w3 @ relay_events ds" "logs w4 = logs w3"
      by (cases "streamLoop (length ds) (body_Read dc) w3 (resp_Body resp)") auto
    with w3 show "\<exists>w'. handleProxy dc (length ds) w r = (Running, w')
           \<and> w_out w' = w_out w @ header_events (resp_StatusCode resp) @ relay_events ds
           \<and> logs w' = logs w"
      by (simp add: hp)
  }
  {
    assume "reads_then (body_Read dc) 4096 (resp_Body resp) ds (dl, Some e)"
    from streamLoop_end [OF this, of w3] obtain w4 where
      w4: "streamLoop (Suc (length ds)) (body_Read dc) w3 (resp_Body resp) = (Returned, w4)"
      "w_out w4 = w_out w3 @ relay_events (ds @ [dl])" "logs w4 = logs w3 @ stream_log e"
      by (cases "streamLoop (Suc (length ds)) (body_Read dc) w3 (resp_Body resp)") auto
    have "streamLoop (Suc (length ds) + m) (body_Read dc) w3 (resp_Body resp) = (Returned, w4)" for m
      using streamLoop_more [of "Suc (length ds)" "body_Read dc" w3 "resp_Body resp" m] w4(1)
      by simp
    then have "\<forall>m. handleProxy dc (Suc (length ds) + m) w r = (Returned, Body_Close w4)"
      by (simp add: hp del: streamLoop.simps)
    with w4 w3 show "\<exists>w'. (\<forall>m. handleProxy dc (Suc (length ds) + m) w r = (Returned, w'))
           \<and> w_out w' = w_out w @ header_events (resp_StatusCode resp) @ relay_events (ds @ [dl])
           \<and> logs w' = logs w @ stream_log e"
      by (auto simp add: Body_Close_frame)
  }
  {
    assume "fst (handleProxy dc n w r) = Returned"
    then have "fst (streamLoop n (body_Read dc) w3 (resp_Body resp)) = Returned"
      by (cases "streamLoop n (body_Read dc) w3 (resp_Body resp)")
         (auto simp add: hp split: exit.splits)
    from streamLoop_Returned [OF this]
    show "\<exists>ds dl e. reads_then (body_Read dc) 4096 (resp_Body resp) ds (dl, Some e) \<and> length ds < n" .
  }
qed

lemma handleProxy_copy:
  assumes d: "RequestRaw dc (req_Method r) (req_RequestURI r) (buildHeaders (req_Header r)) (req_Body r)
            = Inr resp"
    and fresh: "w_status w = None"
    and code: "100 \<le> resp_StatusCode resp" "resp_StatusCode resp \<le> 999"
    and plain: "\<not> (isStreamingRequest (req_Path r) (req_Method r) \<and> w_flusher w)"
  shows "reads_ok (body_Read dc) 32768 (resp_Body resp) ds \<Longrightarrow>
         can_take (w\<lparr>w_status := if header_events (resp_StatusCode resp) = []
                                  then Some (resp_StatusCode resp) else None\<rparr>) ds \<Longrightarrow>
         \<exists>w'. handleProxy dc (length ds) w r = (Running, w')
           \<and> w_out w' = w_out w @ header_events (resp_StatusCode resp) @ copy_events ds
           \<and> logs w' = logs w"
    and "reads_then (body_Read dc) 32768 (resp_Body resp) ds (dl, Some e) \<Longrightarrow>
         can_take (w\<lparr>w_status := if header_events (resp_StatusCode resp) = []
                                  then Some (resp_StatusCode resp) else None\<rparr>) (ds @ [dl]) \<Longrightarrow>
         \<exists>w'. (\<forall>m. handleProxy dc (Suc (length ds) + m) w r = (Returned, w'))
           \<and> w_out w' = w_out w @ header_events (resp_StatusCode resp) @ copy_events (ds @ [dl])
           \<and> logs w' = logs w"
    and "reads_then (body_Read dc) 32768 (resp_Body resp) ds (c, err) \<Longrightarrow>
         can_take (w\<lparr>w_status := if header_events (resp_StatusCode resp) = []
                                  then Some (resp_StatusCode resp) else None\<rparr>) ds \<Longrightarrow>
         \<not> can_take (w\<lparr>w_status := if header_events (resp_StatusCode resp) = []
                                  then Some (resp_StatusCode resp) else None\<rparr>) (ds @ [c]) \<Longrightarrow>
         \<exists>w'. (\<forall>m. handleProxy dc (Suc (length ds) + m) w r = (Returned, w'))
           \<and> w_out w' = w_out w @ header_events (resp_StatusCode resp) @ copy_events ds
                          @ [ReadBody c, Wrote c]
           \<and> logs w' = logs w"
proof -
  let ?ws = "w\<lparr>w_status := if header_events (resp_StatusCode resp) = []
                                  then Some (resp_StatusCode resp) else None\<rparr>"
  from handleProxy_relay [OF d fresh code] obtain w3 where
    w3: "w_out w3 = w_out w @ header_events (resp_StatusCode resp)" "logs w3 = logs w"
        "w_flusher w3 = w_flusher w" "w_limit w3 = w_limit w"
        "w_status w3 = (if header_events (resp_StatusCode resp) = [] then Some (resp_StatusCode resp)
                             else None)"
    and hp0: "\<And>n. handleProxy dc n w r =
                (case (if isStreamingRequest (req_Path r) (req_Method r)
                       then streamResponse n (body_Read dc) w3 (resp_Body resp)
                       else io_Copy n (body_Read dc) w3 (resp_Body resp)) of
                   (Running, w4) \<Rightarrow> (Running, w4)
                 | (x, w4) \<Rightarrow> (x, Body_Close w4))"
    by blast
  have hp: "handleProxy dc n w r =
                (case io_Copy n (body_Read dc) w3 (resp_Body resp) of
                   (Running, w4) \<Rightarrow> (Running, w4)
                 | (x, w4) \<Rightarrow> (x, Body_Close w4))" for n
    using plain w3(3) by (auto simp add: hp0 streamResponse_def)
  have ct: "can_take w3 xs = can_take ?ws xs" for xs
    using w3 by (intro can_take_cong) simp_all
  have lg: "logs (snd (io_Copy n (body_Read dc) w3 (resp_Body resp))) = logs w" for n
    using io_Copy_frame [of n "body_Read dc" w3 "resp_Body resp"] w3 by simp
  {
    assume "reads_ok (body_Read dc) 32768 (resp_Body resp) ds" "can_take ?ws ds"
    with io_Copy_prefix [of "body_Read dc" "resp_Body resp" ds w3] lg [of "length ds"] ct obtain w4 where
      "io_Copy (length ds) (body_Read dc) w3 (resp_Body resp) = (Running, w4)"
      "w_out w4 = w_out w3 @ copy_events ds" "logs w4 = logs w"
      by (cases "io_Copy (length ds) (body_Read dc) w3 (resp_Body resp)") auto
    with w3 show "\<exists>w'. handleProxy dc (length ds) w r = (Running, w')
           \<and> w_out w' = w_out w @ header_events (resp_StatusCode resp) @ copy_events ds
           \<and> logs w' = logs w"
      by (simp add: hp)
  }
  {
    assume "reads_then (body_Read dc) 32768 (resp_Body resp) ds (dl, Some e)" "can_take ?ws (ds @ [dl])"
    with io_Copy_end [of "body_Read dc" "resp_Body resp" ds dl e w3] lg [of "Suc (length ds)"] ct
    obtain w4 where
      w4: "io_Copy (Suc (length ds)) (body_Read dc) w3 (resp_Body resp) = (Returned, w4)"
      "w_out w4 = w_out w3 @ copy_events (ds @ [dl])" "logs w4 = logs w"
      by (cases "io_Copy (Suc (length ds)) (body_Read dc) w3 (resp_Body resp)") auto
    have "io_Copy (Suc (length ds) + m) (body_Read dc) w3 (resp_Body resp) = (Returned, w4)" for m
      using io_Copy_more [of "Suc (length ds)" "body_Read dc" w3 "resp_Body resp" m] w4(1)
      by simp
    then have "\<forall>m. handleProxy dc (Suc (length ds) + m) w r = (Returned, Body_Close w4)"
      by (simp add: hp del: io_Copy.simps)
    with w4 w3 show "\<exists>w'. (\<forall>m. handleProxy dc (Suc (length ds) + m) w r = (Returned, w'))
           \<and> w_out w' = w_out w @ header_events (resp_StatusCode resp) @ copy_events (ds @ [dl])
           \<and> logs w' = logs w"
      by (auto simp add: Body_Close_frame)
  }
  {
    assume a: "reads_then (body_Read dc) 32768 (resp_Body resp) ds (c, err)" "can_take ?ws ds"
      "\<not> can_take ?ws (ds @ [c])"
    define w4 where "w4 = snd (io_Copy (Suc (length ds)) (body_Read dc) w3 (resp_Body resp))"
    from a ct have "can_take w3 ds" "\<not> can_take w3 (ds @ [c])" by simp_all
    from io_Copy_refused [OF a(1) this] 
    have w4: "\<And>m. fst (io_Copy (Suc (length ds) + m) (body_Read dc) w3 (resp_Body resp)) = Returned"
      "\<And>m. w_out (snd (io_Copy (Suc (length ds) + m) (body_Read dc) w3 (resp_Body resp)))
              = w_out w3 @ copy_events ds @ [ReadBody c, Wrote c]"
      by blast+
    from w4(1) [of 0] have "fst (io_Copy (Suc (length ds)) (body_Read dc) w3 (resp_Body resp)) \<noteq> Running"
      by simp
    from io_Copy_more [OF this] w4(1) [of 0]
    have "io_Copy (Suc (length ds) + m) (body_Read dc) w3 (resp_Body resp) = (Returned, w4)" for m
      by (simp add: w4_def prod_eq_iff del: io_Copy.simps)
    then have "\<forall>m. handleProxy dc (Suc (length ds) + m) w r = (Returned, Body_Close w4)"
      by (simp add: hp del: io_Copy.simps)
    moreover from w4(2) [of 0] have "w_out w4 = w_out w3 @ copy_events ds @ [ReadBody c, Wrote c]"
      by (simp add: w4_def del: io_Copy.simps)
    moreover have "logs w4 = logs w" using lg [of "Suc (length ds)"] by (simp add: w4_def del: io_Copy.simps)
    ultimately show "\<exists>w'. (\<forall>m. handleProxy dc (Suc (length ds) + m) w r = (Returned, w'))
           \<and> w_out w' = w_out w @ header_events (resp_StatusCode resp) @ copy_events ds
                          @ [ReadBody c, Wrote c]
           \<and> logs w' = logs w"
      using w3 by (auto simp add: Body_Close_frame)
  }
qed

subsection \<open>The concrete daemon\<close>

lemma example_answer:
  "RequestRaw example_daemon (req_Method (example_request meth ''/containers/json''))
     (req_RequestURI (example_request meth ''/containers/json''))
     (buildHeaders (req_Header (example_request meth ''/containers/json'')))
     (req_Body (example_request meth ''/containers/json'')) = Inr example_response"
  "RequestRaw example_daemon (req_Method (example_request meth ''/containers/abc/logs''))
     (req_RequestURI (example_request meth ''/containers/abc/logs''))
     (buildHeaders (req_Header (example_request meth ''/containers/abc/logs'')))
     (req_Body (example_request meth ''/containers/abc/logs'')) = Inr example_response"
  by (simp_all add: example_daemon_def example_request_def)

lemma example_code:
  "resp_StatusCode example_response = 200" "header_events 200 = []"
  "resp_Body example_response = [(''hello '', None), (''world'', None)]"
  "body_Read example_daemon = scripted"
  by (simp_all add: example_response_def header_events_def example_daemon_def)

lemma example_plain:
  "\<not> isStreamingRequest (req_Path (example_request ''GET'' ''/containers/json''))
        (req_Method (example_request ''GET'' ''/containers/json''))"
  by (simp add: example_request_def isStreamingRequest_def HasPrefix_def HasSuffix_def)

lemma example_streaming:
  "isStreamingRequest (req_Path (example_request ''GET'' ''/containers/abc/logs''))
      (req_Method (example_request ''GET'' ''/containers/abc/logs''))"
  by (simp add: example_request_def isStreamingRequest_def HasPrefix_def HasSuffix_def)

lemma example_reads:
  "reads_ok scripted n [(''hello '', None), (''world'', None)] []"
  "6 \<le> n \<Longrightarrow> reads_ok scripted n [(''hello '', None), (''world'', None)] [''hello '']"
  "6 \<le> n \<Longrightarrow> reads_ok scripted n [(''hello '', None), (''world'', None)] [''hello '', ''world'']"
  "6 \<le> n \<Longrightarrow> reads_then scripted n [(''hello '', None), (''world'', None)] [''hello '', ''world'']
       ([], Some EOF)"
  by simp_all

lemma fresh_can_take:
  "bodyAllowed code \<Longrightarrow> can_take (fresh_conn fl\<lparr>w_status := Some code\<rparr>) ds"
  "can_take (fresh_conn fl) ds"
  by (simp_all add: can_take_def fresh_conn_def)

lemma fresh_fields:
  "w_status (fresh_conn fl) = None" "w_out (fresh_conn fl) = []" "logs (fresh_conn fl) = []"
  "open_bodies (fresh_conn fl) = 0" "daemon_calls (fresh_conn fl) = []"
  "w_flusher (fresh_conn fl) = fl" "w_sent_header (fresh_conn fl) = None"
  "w_header (fresh_conn fl) k = None" "w_limit (fresh_conn fl) = None"
  by (simp_all add: fresh_conn_def)

lemma example_copy_runs:
  "fst (handleProxy example_daemon 1 (fresh_conn fl) (example_request ''GET'' ''/containers/json''))
     = Running"
  "fst (handleProxy example_daemon 3 (fresh_conn fl) (example_request ''GET'' ''/containers/json''))
     = Returned"
proof -
  let ?r = "example_request ''GET'' ''/containers/json''"
  have plain: "\<not> (isStreamingRequest (req_Path ?r) (req_Method ?r) \<and> w_flusher (fresh_conn fl))"
    using example_plain by simp
  have code: "100 \<le> resp_StatusCode example_response" "resp_StatusCode example_response \<le> 999"
    by (simp_all add: example_code)
  have ct: "can_take (fresh_conn fl\<lparr>w_status := if header_events (resp_StatusCode example_response) = []
                then Some (resp_StatusCode example_response) else None\<rparr>) ds" for ds
    by (simp add: example_code fresh_can_take bodyAllowed_def)
  from handleProxy_copy(1) [OF example_answer(1) fresh_fields(1) code plain, of "[''hello '']"] ct
  show "fst (handleProxy example_daemon 1 (fresh_conn fl) ?r) = Running"
    by (auto simp add: example_code)
  from handleProxy_copy(2) [OF example_answer(1) fresh_fields(1) code plain,
      of "[''hello '', ''world'']" "[]" EOF] ct
  obtain w' where "\<forall>m. handleProxy example_daemon (Suc (length [''hello '', ''world'']) + m)
      (fresh_conn fl) ?r = (Returned, w')"
    by (auto simp add: example_code)
  from this [rule_format, of 0]
  show "fst (handleProxy example_daemon 3 (fresh_conn fl) ?r) = Returned"
    by (simp add: numeral_3_eq_3)
qed

lemma example_panics:
  "fst (handleProxy (example_daemon\<lparr>RequestRaw := \<lambda>meth uri headers body.
                          Inr (example_response\<lparr>resp_StatusCode := 42\<rparr>)\<rparr>) n (fresh_conn fl)
             (example_request meth path)) = Panicked"
  by (rule handleProxy_panic [where resp = "example_response\<lparr>resp_StatusCode := 42\<rparr>"])
     (simp_all add: fresh_fields)

section \<open>The properties of the specification\<close>

text \<open>
  C1. Streaming classification is a function of the path and the method alone and is
  the table of section 4.2 of the specification: it is true exactly when the path contains
  \<open>/logs\<close> and the method is GET, or the path contains \<open>/attach\<close>, or it contains both
  \<open>/exec/\<close> and \<open>/start\<close>, or it ends with \<open>/events\<close>, or it contains \<open>/build\<close> and the
  method is POST, or it contains \<open>/images/create\<close> or \<open>/images/push\<close> and the method is
  POST. In particular \<open>GET /containers/abc/logs\<close>, \<open>GET /events\<close> and
  \<open>POST /images/create\<close> are streaming, \<open>POST /containers/abc/logs\<close> and
  \<open>GET /containers/json\<close> are not.
\<close>

theorem isStreamingRequest_table:
  "isStreamingRequest path meth = spec_streaming path meth
   \<and> isStreamingRequest ''/containers/abc/logs'' ''GET''
   \<and> isStreamingRequest ''/events'' ''GET''
   \<and> isStreamingRequest ''/images/create'' ''POST''
   \<and> \<not> isStreamingRequest ''/containers/abc/logs'' ''POST''
   \<and> \<not> isStreamingRequest ''/containers/json'' ''GET''"
proof -
  have "isStreamingRequest path meth = spec_streaming path meth"
    unfolding isStreamingRequest_def spec_streaming_def
    by (simp only: Contains_iff HasSuffix_iff) auto
  moreover have "isStreamingRequest ''/containers/abc/logs'' ''GET''"
    by (simp add: isStreamingRequest_def HasPrefix_def)
  moreover have "isStreamingRequest ''/events'' ''GET''"
    by (simp add: isStreamingRequest_def HasPrefix_def HasSuffix_def)
  moreover have "isStreamingRequest ''/images/create'' ''POST''"
    by (simp add: isStreamingRequest_def HasPrefix_def HasSuffix_def)
  moreover have "\<not> isStreamingRequest ''/containers/abc/logs'' ''POST''"
    by (simp add: isStreamingRequest_def HasPrefix_def HasSuffix_def)
  moreover have "\<not> isStreamingRequest ''/containers/json'' ''GET''"
    by (simp add: isStreamingRequest_def HasPrefix_def HasSuffix_def)
  ultimately show ?thesis by blast
qed

text \<open>
  C2. Whatever headers the request carries, \<open>handleProxy\<close> makes one call of the daemon,
  with the method and the request URI of the request and a header map that has no entry
  under a hop-by-hop name: a name that equals one of Connection, Keep-Alive,
  Proxy-Authenticate, Proxy-Authorization, Te, Trailers, Transfer-Encoding, Upgrade up to
  the case of its letters is never a key of the map the daemon is given; for a name made
  of ASCII bytes (every header name that is an HTTP token) \<open>isHopByHopHeader\<close> holds
  exactly for those names; and every other header of the request that has a value is in
  the map the daemon is given, with its first value. This holds at every moment of the
  handler (for every number \<open>n\<close> of reads of the body that are followed).
\<close>

theorem hop_by_hop_never_forwarded:
  "\<exists>hs. daemon_calls (snd (handleProxy dc n w r))
          = daemon_calls w @ [(req_Method r, req_RequestURI r, hs)]
     \<and> (\<forall>key. (\<forall>name \<in> set [''Connection'', ''Keep-Alive'', ''Proxy-Authenticate'',
                                ''Proxy-Authorization'', ''Te'', ''Trailers'', ''Transfer-Encoding'',
                                ''Upgrade'']. same_name key name \<longrightarrow> hs key = None)
            \<and> (isHopByHopHeader key \<longrightarrow> hs key = None)
            \<and> (list_all isASCII key \<longrightarrow>
                  isHopByHopHeader key =
                    (\<exists>name \<in> set [''Connection'', ''Keep-Alive'', ''Proxy-Authenticate'',
                                    ''Proxy-Authorization'', ''Te'', ''Trailers'',
                                    ''Transfer-Encoding'', ''Upgrade'']. same_name key name))
            \<and> (\<forall>v vs. distinct (map fst (req_Header r)) \<and> (key, v # vs) \<in> set (req_Header r)
                    \<and> \<not> isHopByHopHeader key \<longrightarrow> hs key = Some v))"
proof -
  have table: "set [''Connection'', ''Keep-Alive'', ''Proxy-Authenticate'', ''Proxy-Authorization'',
                    ''Te'', ''Trailers'', ''Transfer-Encoding'', ''Upgrade''] = set hopByHop"
    by (simp add: hopByHop_def)
  let ?hs = "buildHeaders (req_Header r)"
  have call: "daemon_calls (snd (handleProxy dc n w r))
          = daemon_calls w @ [(req_Method r, req_RequestURI r, ?hs)]"
    using handleProxy_calls_bodies [of dc n w r] by simp
  have "(\<forall>name \<in> set hopByHop. same_name key name \<longrightarrow> ?hs key = None)
      \<and> (isHopByHopHeader key \<longrightarrow> ?hs key = None)
      \<and> (list_all isASCII key \<longrightarrow>
            isHopByHopHeader key = (\<exists>name \<in> set hopByHop. same_name key name))
      \<and> (\<forall>v vs. distinct (map fst (req_Header r)) \<and> (key, v # vs) \<in> set (req_Header r)
                    \<and> \<not> isHopByHopHeader key \<longrightarrow> ?hs key = Some v)" for key
    using isHopByHopHeader_same_name buildHeaders_hop isHopByHopHeader_ASCII buildHeaders_present
    by blast
  with call show ?thesis unfolding table by blast
qed

theorem hop_by_hop_never_forwarded_witness:
  "\<exists>hs. daemon_calls (snd (handleProxy example_daemon 3 (fresh_conn True)
                             (example_request ''GET'' ''/containers/json'')))
          = [(''GET'', ''/containers/json'', hs)]
     \<and> hs ''connection'' = None \<and> hs ''Accept'' = Some ''text/plain''
     \<and> hs ''X-Hawser-Token'' = Some ''wrong''"
proof -
  let ?r = "example_request ''GET'' ''/containers/json''"
  have same: "same_name ''connection'' ''Connection''" by code_simp
  have keys: "distinct (map fst (req_Header ?r))" by (simp add: example_request_def)
  have entry: "(''Accept'', ''text/plain'' # [''*/*'']) \<in> set (req_Header ?r)"
    "(''X-Hawser-Token'', ''wrong'' # []) \<in> set (req_Header ?r)"
    by (simp_all add: example_request_def)
  have keep: "\<not> isHopByHopHeader ''Accept''" "\<not> isHopByHopHeader ''X-Hawser-Token''"
    by code_simp+
  have start: "daemon_calls (fresh_conn True) = []" "req_Method ?r = ''GET''"
    "req_RequestURI ?r = ''/containers/json''"
    by (simp_all add: fresh_conn_def example_request_def)
  from hop_by_hop_never_forwarded [of example_daemon 3 "fresh_conn True" ?r]
  obtain hs where
    call: "daemon_calls (snd (handleProxy example_daemon 3 (fresh_conn True) ?r))
            = daemon_calls (fresh_conn True) @ [(req_Method ?r, req_RequestURI ?r, hs)]"
    and hop: "\<And>key. \<forall>name \<in> set [''Connection'', ''Keep-Alive'', ''Proxy-Authenticate'',
                                ''Proxy-Authorization'', ''Te'', ''Trailers'', ''Transfer-Encoding'',
                                ''Upgrade'']. same_name key name \<longrightarrow> hs key = None"
    and fwd: "\<And>key v vs. distinct (map fst (req_Header ?r)) \<and> (key, v # vs) \<in> set (req_Header ?r)
                    \<and> \<not> isHopByHopHeader key \<longrightarrow> hs key = Some v"
    by blast
  from hop [of "''connection''"] same have "hs ''connection'' = None" by simp
  moreover from fwd [of "''Accept''" "''text/plain''" "[''*/*'']"] keys entry keep
  have "hs ''Accept'' = Some ''text/plain''" by blast
  moreover from fwd [of "''X-Hawser-Token''" "''wrong''" "[]"] keys entry keep
  have "hs ''X-Hawser-Token'' = Some ''wrong''" by blast
  ultimately show ?thesis using call unfolding start by auto
qed

text \<open>
  C3. With a token configured, a request to a path other than \<open>/_hawser/health\<close> whose
  \<open>X-Hawser-Token\<close> header is not the token and whose \<open>token\<close> query parameter is not the
  token either is answered with status 401 and the body \<open>Unauthorized\<close>, and the wrapped
  handler is not called: the outcome is the same for every handler, and no call of the
  daemon is made. A request to \<open>/_hawser/health\<close> goes to the wrapped handler as it is,
  whatever the token.
\<close>

theorem authMiddleware_unauthorized:
  "(cfg_Token cfg \<noteq> [] \<and> req_Path r \<noteq> ''/_hawser/health''
      \<and> Header_Get (req_Header r) ''X-Hawser-Token'' \<noteq> cfg_Token cfg
      \<and> Values_Get (req_Query r) ''token'' \<noteq> cfg_Token cfg
      \<and> w_status w = None
     \<longrightarrow> (\<exists>w'. (\<forall>next n. authMiddleware cfg next n w r = (Returned, w'))
            \<and> w_status w' = Some 401
            \<and> w_out w' = w_out w @ [Wrote (''Unauthorized'' @ [CHR 0x0A])]
            \<and> daemon_calls w' = daemon_calls w))
   \<and> (req_Path r = ''/_hawser/health''
        \<longrightarrow> (\<forall>next n. authMiddleware cfg next n w r = next n w r))"
proof (intro conjI impI)
  assume a: "cfg_Token cfg \<noteq> [] \<and> req_Path r \<noteq> ''/_hawser/health''
      \<and> Header_Get (req_Header r) ''X-Hawser-Token'' \<noteq> cfg_Token cfg
      \<and> Values_Get (req_Query r) ''token'' \<noteq> cfg_Token cfg
      \<and> w_status w = None"
  then have reject: "authMiddleware cfg nxt n w r = http_Error w ''Unauthorized'' 401" for nxt n
    by (simp add: authMiddleware_def Let_def)
  from a http_Error_fresh [of w 401 "''Unauthorized''"] obtain w' where
    "http_Error w ''Unauthorized'' 401 = (Returned, w')" "w_status w' = Some 401"
    "w_out w' = w_out w @ [Wrote (''Unauthorized'' @ [CHR 0x0A])]"
    "daemon_calls w' = daemon_calls w"
    by auto
  with reject show "\<exists>w'. (\<forall>next n. authMiddleware cfg next n w r = (Returned, w'))
            \<and> w_status w' = Some 401
            \<and> w_out w' = w_out w @ [Wrote (''Unauthorized'' @ [CHR 0x0A])]
            \<and> daemon_calls w' = daemon_calls w"
    by auto
next
  assume "req_Path r = ''/_hawser/health''"
  then show "\<forall>next n. authMiddleware cfg next n w r = next n w r"
    by (simp add: authMiddleware_def)
qed

theorem authMiddleware_unauthorized_witness:
  "(\<exists>w'. (\<forall>next n. authMiddleware example_config next n (fresh_conn True)
                     (example_request ''GET'' ''/containers/json'') = (Returned, w'))
         \<and> w_status w' = Some 401
         \<and> w_out w' = [Wrote (''Unauthorized'' @ [CHR 0x0A])]
         \<and> daemon_calls w' = [])
   \<and> (\<forall>next n. authMiddleware example_config next n (fresh_conn True)
                (example_request ''GET'' ''/_hawser/health'')
              = next n (fresh_conn True) (example_request ''GET'' ''/_hawser/health''))"
proof -
  let ?r = "example_request ''GET'' ''/containers/json''"
  have h1: "cfg_Token example_config \<noteq> []" by (simp add: example_config_def)
  have h2: "req_Path ?r \<noteq> ''/_hawser/health''" by (simp add: example_request_def)
  have h3: "Header_Get (req_Header ?r) ''X-Hawser-Token'' \<noteq> cfg_Token example_config"
    by code_simp
  have h4: "Values_Get (req_Query ?r) ''token'' \<noteq> cfg_Token example_config"
    by code_simp
  have h5: "w_status (fresh_conn True) = None" "w_out (fresh_conn True) = []"
    "daemon_calls (fresh_conn True) = []"
    by (simp_all add: fresh_conn_def)
  have h6: "req_Path (example_request ''GET'' ''/_hawser/health'') = ''/_hawser/health''"
    by (simp add: example_request_def)
  from authMiddleware_unauthorized [of example_config ?r "fresh_conn True"] h1 h2 h3 h4 h5
  have "\<exists>w'. (\<forall>next n. authMiddleware example_config next n (fresh_conn True) ?r = (Returned, w'))
         \<and> w_status w' = Some 401
         \<and> w_out w' = [Wrote (''Unauthorized'' @ [CHR 0x0A])]
         \<and> daemon_calls w' = []"
    by simp
  moreover from authMiddleware_unauthorized
     [of example_config "example_request ''GET'' ''/_hawser/health''" "fresh_conn True"] h6
  have "\<forall>next n. authMiddleware example_config next n (fresh_conn True)
                (example_request ''GET'' ''/_hawser/health'')
              = next n (fresh_conn True) (example_request ''GET'' ''/_hawser/health'')"
    by blast
  ultimately show ?thesis by blast
qed

text \<open>
  C4. When \<open>RequestRaw\<close> returns an error, \<open>handleProxy\<close> returns normally, whatever the
  number of reads that are followed, with status 502 and a body that is
  \<open>Docker request failed: \<close> and the text of the error; the error is logged, and no daemon
  body has been opened. The daemon's response comes with its body open (the client opens
  it, not the handler); at every exit of \<open>handleProxy\<close>, a return or a panic, as many
  daemon bodies are open as before the call, and while the handler is still running the
  body of the response is open.
\<close>

theorem handleProxy_bad_gateway:
  "(RequestRaw dc (req_Method r) (req_RequestURI r) (buildHeaders (req_Header r)) (req_Body r) = Inl err
      \<and> w_status w = None
     \<longrightarrow> (\<exists>w'. (\<forall>n. handleProxy dc n w r = (Returned, w'))
            \<and> w_status w' = Some 502
            \<and> w_out w' = w_out w @ [Wrote (''Docker request failed: '' @ err @ [CHR 0x0A])]
            \<and> logs w' = logs w @ [''Docker request failed: '' @ err]
            \<and> open_bodies w' = open_bodies w))
   \<and> (RequestRaw dc (req_Method r) (req_RequestURI r) (buildHeaders (req_Header r)) (req_Body r)
         = Inr resp
       \<longrightarrow> open_bodies (snd (call_RequestRaw dc (req_Method r) (req_RequestURI r)
                                (buildHeaders (req_Header r)) (req_Body r) w)) = open_bodies w + 1)
   \<and> open_bodies (snd (handleProxy dc n w r))
       = (if fst (handleProxy dc n w r) = Running then open_bodies w + 1 else open_bodies w)"
proof (intro conjI impI)
  assume a: "RequestRaw dc (req_Method r) (req_RequestURI r) (buildHeaders (req_Header r)) (req_Body r)
       = Inl err \<and> w_status w = None"
  let ?w = "log_Printf (w\<lparr>daemon_calls := daemon_calls w
                   @ [(req_Method r, req_RequestURI r, buildHeaders (req_Header r))]\<rparr>)
                 (''Docker request failed: '' @ err)"
  from a have run: "handleProxy dc n w r = http_Error ?w (''Docker request failed: '' @ err) 502" for n
    by (simp add: handleProxy_Inl)
  from a have "w_status ?w = None" by (simp add: log_Printf_def)
  from http_Error_fresh [OF this, of 502 "''Docker request failed: '' @ err"] obtain w' where
    "http_Error ?w (''Docker request failed: '' @ err) 502 = (Returned, w')"
    "w_status w' = Some 502"
    "w_out w' = w_out ?w @ [Wrote ((''Docker request failed: '' @ err) @ [CHR 0x0A])]"
    "logs w' = logs ?w" "open_bodies w' = open_bodies ?w"
    by auto
  with run show "\<exists>w'. (\<forall>n. handleProxy dc n w r = (Returned, w'))
            \<and> w_status w' = Some 502
            \<and> w_out w' = w_out w @ [Wrote (''Docker request failed: '' @ err @ [CHR 0x0A])]
            \<and> logs w' = logs w @ [''Docker request failed: '' @ err]
            \<and> open_bodies w' = open_bodies w"
    by (simp add: log_Printf_def)
next
  assume "RequestRaw dc (req_Method r) (req_RequestURI r) (buildHeaders (req_Header r)) (req_Body r)
         = Inr resp"
  then show "open_bodies (snd (call_RequestRaw dc (req_Method r) (req_RequestURI r)
                                (buildHeaders (req_Header r)) (req_Body r) w)) = open_bodies w + 1"
    by (simp add: call_RequestRaw_def)
next
  show "open_bodies (snd (handleProxy dc n w r))
       = (if fst (handleProxy dc n w r) = Running then open_bodies w + 1 else open_bodies w)"
    using handleProxy_calls_bodies [of dc n w r] by simp
qed

theorem handleProxy_bad_gateway_witness:
  "(\<exists>w'. (\<forall>n. handleProxy example_daemon n (fresh_conn True) (example_request ''GET'' ''/fail'')
                = (Returned, w'))
        \<and> w_status w' = Some 502
        \<and> w_out w' = [Wrote (''Docker request failed: daemon down'' @ [CHR 0x0A])]
        \<and> logs w' = [''Docker request failed: daemon down'']
        \<and> open_bodies w' = 0)
   \<and> open_bodies (snd (call_RequestRaw example_daemon ''GET'' ''/containers/json''
        (buildHeaders (req_Header (example_request ''GET'' ''/containers/json''))) ()
        (fresh_conn True))) = 1
   \<and> fst (handleProxy example_daemon 1 (fresh_conn True) (example_request ''GET'' ''/containers/json''))
       = Running
   \<and> open_bodies (snd (handleProxy example_daemon 1 (fresh_conn True)
                          (example_request ''GET'' ''/containers/json''))) = 1
   \<and> fst (handleProxy example_daemon 3 (fresh_conn True) (example_request ''GET'' ''/containers/json''))
       = Returned
   \<and> open_bodies (snd (handleProxy example_daemon 3 (fresh_conn True)
                          (example_request ''GET'' ''/containers/json''))) = 0
   \<and> fst (handleProxy (example_daemon\<lparr>RequestRaw := \<lambda>meth uri headers body.
                          Inr (example_response\<lparr>resp_StatusCode := 42\<rparr>)\<rparr>) 3 (fresh_conn True)
             (example_request ''GET'' ''/containers/json'')) = Panicked
   \<and> open_bodies (snd (handleProxy (example_daemon\<lparr>RequestRaw := \<lambda>meth uri headers body.
                          Inr (example_response\<lparr>resp_StatusCode := 42\<rparr>)\<rparr>) 3 (fresh_conn True)
             (example_request ''GET'' ''/containers/json''))) = 0"
proof -
  let ?r = "example_request ''GET'' ''/fail''"
  let ?r2 = "example_request ''GET'' ''/containers/json''"
  let ?bad = "example_daemon\<lparr>RequestRaw := \<lambda>meth uri headers body.
                          Inr (example_response\<lparr>resp_StatusCode := 42\<rparr>)\<rparr>"
  have h1: "RequestRaw example_daemon (req_Method ?r) (req_RequestURI ?r)
              (buildHeaders (req_Header ?r)) (req_Body ?r) = Inl ''daemon down''"
    by (simp add: example_daemon_def example_request_def)
  have h2: "w_status (fresh_conn True) = None" "w_out (fresh_conn True) = []"
    "open_bodies (fresh_conn True) = 0" "logs (fresh_conn True) = []"
    by (simp_all add: fresh_conn_def)
  have d: "RequestRaw example_daemon (req_Method ?r2) (req_RequestURI ?r2)
              (buildHeaders (req_Header ?r2)) (req_Body ?r2) = Inr example_response"
    by (simp add: example_daemon_def example_request_def)
  have r2: "req_Method ?r2 = ''GET''" "req_RequestURI ?r2 = ''/containers/json''" "req_Body ?r2 = ()"
    by (simp_all add: example_request_def)
  have x1: "fst (handleProxy example_daemon 1 (fresh_conn True) ?r2) = Running"
    by (rule example_copy_runs)
  have x3: "fst (handleProxy example_daemon 3 (fresh_conn True) ?r2) = Returned"
    by (rule example_copy_runs)
  have xp: "fst (handleProxy ?bad 3 (fresh_conn True) ?r2) = Panicked"
    by (rule example_panics)
  from handleProxy_bad_gateway [of example_daemon ?r "''daemon down''" "fresh_conn True", THEN conjunct1]
    h1 h2
  have "\<exists>w'. (\<forall>n. handleProxy example_daemon n (fresh_conn True) ?r = (Returned, w'))
        \<and> w_status w' = Some 502
        \<and> w_out w' = [Wrote (''Docker request failed: daemon down'' @ [CHR 0x0A])]
        \<and> logs w' = [''Docker request failed: daemon down'']
        \<and> open_bodies w' = 0"
    by simp
  moreover
  from handleProxy_bad_gateway [of example_daemon ?r2 _ "fresh_conn True" example_response,
      THEN conjunct2, THEN conjunct1] d h2
  have "open_bodies (snd (call_RequestRaw example_daemon ''GET'' ''/containers/json''
        (buildHeaders (req_Header ?r2)) () (fresh_conn True))) = 1"
    unfolding r2 by simp
  moreover
  from handleProxy_bad_gateway [of example_daemon ?r2 _ "fresh_conn True" _ 1,
      THEN conjunct2, THEN conjunct2] x1 h2
  have "open_bodies (snd (handleProxy example_daemon 1 (fresh_conn True) ?r2)) = 1" by simp
  moreover
  from handleProxy_bad_gateway [of example_daemon ?r2 _ "fresh_conn True" _ 3,
      THEN conjunct2, THEN conjunct2] x3 h2
  have "open_bodies (snd (handleProxy example_daemon 3 (fresh_conn True) ?r2)) = 0" by simp
  moreover
  from handleProxy_bad_gateway [of ?bad ?r2 _ "fresh_conn True" _ 3,
      THEN conjunct2, THEN conjunct2] xp h2
  have "open_bodies (snd (handleProxy ?bad 3 (fresh_conn True) ?r2)) = 0" by simp
  ultimately show ?thesis using x1 x3 xp by blast
qed

text \<open>
  C5. On a writer that implements \<open>http.Flusher\<close> (every writer that net/http hands to the
  handler \<open>Run\<close> installs is one, and the middlewares pass it on as it is), the relay of
  \<open>streamResponse\<close> reads the body with a buffer of 4096 bytes and, after each read that
  returned bytes, writes them and flushes before it reads again. As long as the reads
  return chunks \<open>ds\<close> without an error the relay is running and what the outside has seen
  is, for each chunk in turn, the read, the write of the chunk and the flush: this holds
  for a body that never ends as well. When a read returns an error the relay returns;
  what it has written and flushed before stays as it is, a chunk that came with the error
  is written and flushed too, and an error other than EOF is logged. The relay returns
  only when a read has returned an error, and it never panics. No chunk is longer than
  4096 bytes when the reader keeps the contract of \<open>io.Reader\<close>. For a request that is
  classified as streaming \<open>handleProxy\<close> relays the body of the daemon's response in this
  way, after the status line, once the daemon has answered with a status code in 100..999.
\<close>

theorem streaming_relay:
  assumes "w_flusher w"
  shows "(reads_ok rd 4096 body ds
           \<longrightarrow> (\<exists>w'. streamResponse (length ds) rd w body = (Running, w')
                  \<and> w_out w' = w_out w @ relay_events ds \<and> logs w' = logs w))
       \<and> (replays rd 4096 body ds dl e
           \<longrightarrow> (\<exists>w'. (\<forall>m. streamResponse (Suc (length ds) + m) rd w body = (Returned, w'))
                  \<and> w_out w' = w_out w @ relay_events (ds @ [dl])
                  \<and> logs w' = logs w @ stream_log e))
       \<and> (fst (streamResponse n rd w body) = Returned
           \<longrightarrow> (\<exists>ds dl e. replays rd 4096 body ds dl e \<and> length ds < n))
       \<and> fst (streamResponse n rd w body) \<noteq> Panicked
       \<and> (reader_ok rd \<and> reads_ok rd 4096 body ds \<longrightarrow> (\<forall>d \<in> set ds. length d \<le> 4096))
       \<and> flushed_after_every_write (relay_events ds)
       \<and> (isStreamingRequest (req_Path r) (req_Method r)
            \<and> RequestRaw dc (req_Method r) (req_RequestURI r) (buildHeaders (req_Header r)) (req_Body r)
                = Inr resp
            \<and> body_Read dc = rd \<and> resp_Body resp = body
            \<and> w_status w = None \<and> 100 \<le> resp_StatusCode resp \<and> resp_StatusCode resp \<le> 999
           \<longrightarrow> (reads_ok rd 4096 body ds
                 \<longrightarrow> (\<exists>w'. handleProxy dc (length ds) w r = (Running, w')
                        \<and> w_out w' = w_out w @ header_events (resp_StatusCode resp) @ relay_events ds
                        \<and> logs w' = logs w))
              \<and> (replays rd 4096 body ds dl e
                 \<longrightarrow> (\<exists>w'. (\<forall>m. handleProxy dc (Suc (length ds) + m) w r = (Returned, w'))
                        \<and> w_out w' = w_out w @ header_events (resp_StatusCode resp)
                                       @ relay_events (ds @ [dl])
                        \<and> logs w' = logs w @ stream_log e))
              \<and> (fst (handleProxy dc n w r) = Returned
                 \<longrightarrow> (\<exists>ds dl e. replays rd 4096 body ds dl e \<and> length ds < n)))"
proof -
  have loop: "streamResponse k rd w body = streamLoop k rd w body" for k
    using assms by (simp add: streamResponse_def)
  have c1: "reads_ok rd 4096 body ds
           \<longrightarrow> (\<exists>w'. streamResponse (length ds) rd w body = (Running, w')
                  \<and> w_out w' = w_out w @ relay_events ds \<and> logs w' = logs w)"
  proof
    assume "reads_ok rd 4096 body ds"
    from streamLoop_prefix [OF this, of w]
    show "\<exists>w'. streamResponse (length ds) rd w body = (Running, w')
                  \<and> w_out w' = w_out w @ relay_events ds \<and> logs w' = logs w"
      unfolding loop by (cases "streamLoop (length ds) rd w body") auto
  qed
  have c2: "replays rd 4096 body ds dl e
           \<longrightarrow> (\<exists>w'. (\<forall>m. streamResponse (Suc (length ds) + m) rd w body = (Returned, w'))
                  \<and> w_out w' = w_out w @ relay_events (ds @ [dl])
                  \<and> logs w' = logs w @ stream_log e)"
  proof
    assume "replays rd 4096 body ds dl e"
    then have "reads_then rd 4096 body ds (dl, Some e)" by (simp add: replays_def)
    from streamLoop_end [OF this, of w] obtain w' where
      w': "streamLoop (Suc (length ds)) rd w body = (Returned, w')"
      "w_out w' = w_out w @ relay_events (ds @ [dl])" "logs w' = logs w @ stream_log e"
      by (cases "streamLoop (Suc (length ds)) rd w body") auto
    have "streamLoop (Suc (length ds) + m) rd w body = (Returned, w')" for m
      using streamLoop_more [of "Suc (length ds)" rd w body m] w'(1) by simp
    with w' show "\<exists>w'. (\<forall>m. streamResponse (Suc (length ds) + m) rd w body = (Returned, w'))
                  \<and> w_out w' = w_out w @ relay_events (ds @ [dl])
                  \<and> logs w' = logs w @ stream_log e"
      unfolding loop by blast
  qed
  have c3: "fst (streamResponse n rd w body) = Returned
           \<longrightarrow> (\<exists>ds dl e. replays rd 4096 body ds dl e \<and> length ds < n)"
    unfolding loop replays_def using streamLoop_Returned [of n rd w body] by blast
  have c4: "fst (streamResponse n rd w body) \<noteq> Panicked"
    using streamResponse_frame [of n rd w body] by simp
  have c5: "reader_ok rd \<and> reads_ok rd 4096 body ds \<longrightarrow> (\<forall>d \<in> set ds. length d \<le> 4096)"
    using reads_ok_chunks [of rd 4096 body ds] by blast
  have c6: "flushed_after_every_write (relay_events ds)"
    by (rule flushed_relay_events)
  have c7: "isStreamingRequest (req_Path r) (req_Method r)
            \<and> RequestRaw dc (req_Method r) (req_RequestURI r) (buildHeaders (req_Header r)) (req_Body r)
                = Inr resp
            \<and> body_Read dc = rd \<and> resp_Body resp = body
            \<and> w_status w = None \<and> 100 \<le> resp_StatusCode resp \<and> resp_StatusCode resp \<le> 999
           \<longrightarrow> (reads_ok rd 4096 body ds
                 \<longrightarrow> (\<exists>w'. handleProxy dc (length ds) w r = (Running, w')
                        \<and> w_out w' = w_out w @ header_events (resp_StatusCode resp) @ relay_events ds
                        \<and> logs w' = logs w))
              \<and> (replays rd 4096 body ds dl e
                 \<longrightarrow> (\<exists>w'. (\<forall>m. handleProxy dc (Suc (length ds) + m) w r = (Returned, w'))
                        \<and> w_out w' = w_out w @ header_events (resp_StatusCode resp)
                                       @ relay_events (ds @ [dl])
                        \<and> logs w' = logs w @ stream_log e))
              \<and> (fst (handleProxy dc n w r) = Returned
                 \<longrightarrow> (\<exists>ds dl e. replays rd 4096 body ds dl e \<and> length ds < n))"
  proof
    assume a: "isStreamingRequest (req_Path r) (req_Method r)
            \<and> RequestRaw dc (req_Method r) (req_RequestURI r) (buildHeaders (req_Header r)) (req_Body r)
                = Inr resp
            \<and> body_Read dc = rd \<and> resp_Body resp = body
            \<and> w_status w = None \<and> 100 \<le> resp_StatusCode resp \<and> resp_StatusCode resp \<le> 999"
    then have d: "RequestRaw dc (req_Method r) (req_RequestURI r) (buildHeaders (req_Header r)) (req_Body r)
                = Inr resp"
      and fresh: "w_status w = None"
      and code: "100 \<le> resp_StatusCode resp" "resp_StatusCode resp \<le> 999"
      and streaming: "isStreamingRequest (req_Path r) (req_Method r)"
      and rd: "body_Read dc = rd" "resp_Body resp = body"
      by simp_all
    note hs = handleProxy_stream [OF d fresh code streaming assms, unfolded rd]
    show "(reads_ok rd 4096 body ds
                 \<longrightarrow> (\<exists>w'. handleProxy dc (length ds) w r = (Running, w')
                        \<and> w_out w' = w_out w @ header_events (resp_StatusCode resp) @ relay_events ds
                        \<and> logs w' = logs w))
              \<and> (replays rd 4096 body ds dl e
                 \<longrightarrow> (\<exists>w'. (\<forall>m. handleProxy dc (Suc (length ds) + m) w r = (Returned, w'))
                        \<and> w_out w' = w_out w @ header_events (resp_StatusCode resp)
                                       @ relay_events (ds @ [dl])
                        \<and> logs w' = logs w @ stream_log e))
              \<and> (fst (handleProxy dc n w r) = Returned
                 \<longrightarrow> (\<exists>ds dl e. replays rd 4096 body ds dl e \<and> length ds < n))"
      unfolding replays_def using hs(1) [of ds] hs(2) [of ds dl e] hs(3) [of n] by blast
  qed
  from c1 c2 c3 c4 c5 c6 c7 show ?thesis by (intro conjI)
qed


theorem streaming_relay_witness:
  "(\<exists>w'. handleProxy example_daemon 1 (fresh_conn True) (example_request ''GET'' ''/containers/abc/logs'')
            = (Running, w')
         \<and> w_out w' = [ReadBody ''hello '', Wrote ''hello '', Flushed])
   \<and> (\<exists>w'. (\<forall>m. handleProxy example_daemon (3 + m) (fresh_conn True)
                    (example_request ''GET'' ''/containers/abc/logs'') = (Returned, w'))
         \<and> w_out w' = [ReadBody ''hello '', Wrote ''hello '', Flushed,
                        ReadBody ''world'', Wrote ''world'', Flushed, ReadBody []]
         \<and> logs w' = [])
   \<and> (\<forall>k. \<exists>w'. handleProxy tail_daemon k (fresh_conn True)
                   (example_request ''GET'' ''/containers/abc/logs'') = (Running, w')
         \<and> w_out w' = relay_events (replicate k ''tick''))
   \<and> (\<exists>w'. (\<forall>m. streamResponse (2 + m) scripted (fresh_conn True)
                    [(''par'', None), (''tial'', Some (ReadError ''reset''))] = (Returned, w'))
         \<and> w_out w' = [ReadBody ''par'', Wrote ''par'', Flushed, ReadBody ''tial'', Wrote ''tial'', Flushed]
         \<and> logs w' = [''Stream error: reset''])
   \<and> (\<exists>w'. (\<forall>m. streamResponse (2 + m) scripted (fresh_conn True)
                    [(replicate 5000 (CHR ''a''), Some EOF)] = (Returned, w'))
         \<and> w_out w' = [ReadBody (replicate 4096 (CHR ''a'')), Wrote (replicate 4096 (CHR ''a'')), Flushed,
                        ReadBody (replicate 904 (CHR ''a'')), Wrote (replicate 904 (CHR ''a'')), Flushed])"
proof -
  let ?r = "example_request ''GET'' ''/containers/abc/logs''"
  let ?w = "fresh_conn True"
  have fl: "w_flusher ?w" by (simp add: fresh_fields)
  have pre: "isStreamingRequest (req_Path ?r) (req_Method ?r)
            \<and> RequestRaw example_daemon (req_Method ?r) (req_RequestURI ?r)
                 (buildHeaders (req_Header ?r)) (req_Body ?r) = Inr example_response
            \<and> body_Read example_daemon = scripted
            \<and> resp_Body example_response = [(''hello '', None), (''world'', None)]
            \<and> w_status ?w = None \<and> 100 \<le> resp_StatusCode example_response
            \<and> resp_StatusCode example_response \<le> 999"
    using example_streaming example_answer(2) [of "''GET''"]
    by (simp add: example_code fresh_fields)
  have r1: "reads_ok scripted 4096 [(''hello '', None), (''world'', None)] [''hello '']"
    by simp
  have r2: "replays scripted 4096 [(''hello '', None), (''world'', None)] [''hello '', ''world''] [] EOF"
    by (simp add: replays_def)
  from streaming_relay [OF fl, where rd = scripted and dc = example_daemon and r = ?r
      and resp = example_response and body = "[(''hello '', None), (''world'', None)]"
      and ds = "[''hello '']",
      THEN conjunct2, THEN conjunct2, THEN conjunct2, THEN conjunct2, THEN conjunct2,
      THEN conjunct2, THEN mp, OF pre, THEN conjunct1, THEN mp, OF r1]
  have w1: "\<exists>w'. handleProxy example_daemon 1 ?w ?r = (Running, w')
         \<and> w_out w' = [ReadBody ''hello '', Wrote ''hello '', Flushed]"
    by (auto simp add: example_code fresh_fields relay_events_def)
  from streaming_relay [OF fl, where rd = scripted and dc = example_daemon and r = ?r
      and resp = example_response and body = "[(''hello '', None), (''world'', None)]"
      and ds = "[''hello '', ''world'']" and dl = "[]" and e = EOF,
      THEN conjunct2, THEN conjunct2, THEN conjunct2, THEN conjunct2, THEN conjunct2,
      THEN conjunct2, THEN mp, OF pre, THEN conjunct2, THEN conjunct1, THEN mp, OF r2]
  have w2: "\<exists>w'. (\<forall>m. handleProxy example_daemon (3 + m) ?w ?r = (Returned, w'))
         \<and> w_out w' = [ReadBody ''hello '', Wrote ''hello '', Flushed,
                        ReadBody ''world'', Wrote ''world'', Flushed, ReadBody []]
         \<and> logs w' = []"
    by (auto simp add: example_code fresh_fields relay_events_def stream_log_def numeral_3_eq_3)
  let ?tail = "\<lparr>resp_StatusCode = 200, resp_Header = [(''Content-Type'', [''text/plain''])],
                 resp_Body = ()\<rparr>"
  have pretail: "isStreamingRequest (req_Path ?r) (req_Method ?r)
            \<and> RequestRaw tail_daemon (req_Method ?r) (req_RequestURI ?r)
                 (buildHeaders (req_Header ?r)) (req_Body ?r) = Inr ?tail
            \<and> body_Read tail_daemon = endless
            \<and> resp_Body ?tail = ()
            \<and> w_status ?w = None \<and> 100 \<le> resp_StatusCode ?tail
            \<and> resp_StatusCode ?tail \<le> 999"
    using example_streaming by (simp add: tail_daemon_def fresh_fields)
  have w3: "\<exists>w'. handleProxy tail_daemon k ?w ?r = (Running, w')
         \<and> w_out w' = relay_events (replicate k ''tick'')" for k
    using streaming_relay [OF fl, where rd = endless and dc = tail_daemon and r = ?r
        and resp = ?tail and body = "()" and ds = "replicate k ''tick''",
        THEN conjunct2, THEN conjunct2, THEN conjunct2, THEN conjunct2, THEN conjunct2,
        THEN conjunct2, THEN mp, OF pretail, THEN conjunct1] endless_reads [of 4096 "()" k]
    by (auto simp add: fresh_fields header_events_def)
  have r4: "replays scripted 4096 [(''par'', None), (''tial'', Some (ReadError ''reset''))]
              [''par''] ''tial'' (ReadError ''reset'')"
    by (simp add: replays_def)
  from streaming_relay [OF fl, where rd = scripted and ds = "[''par'']" and dl = "''tial''"
      and e = "ReadError ''reset''"
      and body = "[(''par'', None), (''tial'', Some (ReadError ''reset''))]",
      THEN conjunct2, THEN conjunct1, THEN mp, OF r4]
  have w4: "\<exists>w'. (\<forall>m. streamResponse (2 + m) scripted ?w
                    [(''par'', None), (''tial'', Some (ReadError ''reset''))] = (Returned, w'))
         \<and> w_out w' = [ReadBody ''par'', Wrote ''par'', Flushed, ReadBody ''tial'', Wrote ''tial'', Flushed]
         \<and> logs w' = [''Stream error: reset'']"
    by (auto simp add: fresh_fields relay_events_def stream_log_def numeral_2_eq_2)
  have r5: "replays scripted 4096 [(replicate 5000 (CHR ''a''), Some EOF)]
              [replicate 4096 (CHR ''a'')] (replicate 904 (CHR ''a'')) EOF"
    by (simp add: replays_def)
  from streaming_relay [OF fl, where rd = scripted and ds = "[replicate 4096 (CHR ''a'')]"
      and dl = "replicate 904 (CHR ''a'')" and e = EOF
      and body = "[(replicate 5000 (CHR ''a''), Some EOF)]",
      THEN conjunct2, THEN conjunct1, THEN mp, OF r5]
  have w5: "\<exists>w'. (\<forall>m. streamResponse (2 + m) scripted ?w
                    [(replicate 5000 (CHR ''a''), Some EOF)] = (Returned, w'))
         \<and> w_out w' = [ReadBody (replicate 4096 (CHR ''a'')), Wrote (replicate 4096 (CHR ''a'')), Flushed,
                        ReadBody (replicate 904 (CHR ''a'')), Wrote (replicate 904 (CHR ''a'')), Flushed]"
    by (auto simp add: fresh_fields relay_events_def stream_log_def numeral_2_eq_2)
  from w1 w2 w3 w4 w5 show ?thesis by (intro conjI allI)
qed

text \<open>
  C7. A request to \<open>/_hawser/health\<close>, with any method, any headers and any configured
  token, is answered with status 200 and the body \<open>{"status":"healthy"}\<close> when the daemon's
  \<open>Ping\<close> succeeds, and with status 503 and the body \<open>Docker unhealthy: \<close> followed by the
  text of the error when it fails. The handler returns, whatever the number of reads that
  are followed.
\<close>

theorem health_endpoint:
  assumes "req_Path r = ''/_hawser/health''" and "w_status w = None" and "w_out w = []"
  shows \<open>(Ping dc = None \<longrightarrow>
           (\<exists>w'. (\<forall>n. server_Handler dc cfg elapsed n w r = (Returned, w'))
              \<and> w_status w' = Some 200 \<and> body_of w' = ''{"status":"healthy"}''))
       \<and> (\<forall>err. Ping dc = Some err \<longrightarrow>
            (\<exists>w'. (\<forall>n. server_Handler dc cfg elapsed n w r = (Returned, w'))
               \<and> w_status w' = Some 503
               \<and> body_of w' = ''Docker unhealthy: '' @ err @ [CHR 0x0A]))\<close>
proof -
  let ?w1 = "log_Printf w (''--> '' @ req_Method r @ '' '' @ req_Path r)"
  have fresh: "w_status ?w1 = None" "w_out ?w1 = []"
    using assms by (simp_all add: log_Printf_frame)
  have route: "authMiddleware cfg (mux dc cfg) n ?w1 r = handleHealth dc n ?w1 r" for n
    using assms(1) by (simp add: authMiddleware_def mux_def)
  show ?thesis
  proof (intro conjI impI allI)
    assume ping: "Ping dc = None"
    let ?w2 = \<open>snd (Write (?w1\<lparr>w_header := Header_Set (w_header ?w1) ''Content-Type'' ''application/json''\<rparr>)
                 ''{"status":"healthy"}'')\<close>
    from ping have "authMiddleware cfg (mux dc cfg) n ?w1 r = (Returned, ?w2)" for n
      unfolding route by (simp add: handleHealth_def)
    from loggingMiddleware_Returned [where inner = "authMiddleware cfg (mux dc cfg)" and elapsed = elapsed, OF this]
    have "\<forall>n. server_Handler dc cfg elapsed n w r = (Returned,
       log_Printf ?w2 (''<-- '' @ req_Method r @ '' '' @ req_Path r @ '' ('' @ elapsed @ '')''))"
      by (simp add: server_Handler_def)
    moreover from fresh have \<open>w_status ?w2 = Some 200 \<and> body_of ?w2 = ''{"status":"healthy"}''\<close>
      by (simp add: Write_def implicit_OK_def send_header_def body_of_def Let_def)
    ultimately show \<open>\<exists>w'. (\<forall>n. server_Handler dc cfg elapsed n w r = (Returned, w'))
              \<and> w_status w' = Some 200 \<and> body_of w' = ''{"status":"healthy"}''\<close>
      by (simp add: log_Printf_frame)
  next
    fix err
    assume ping: "Ping dc = Some err"
    from http_Error_fresh [OF fresh(1), of 503 "''Docker unhealthy: '' @ err"] obtain w2 where
      w2: "http_Error ?w1 (''Docker unhealthy: '' @ err) 503 = (Returned, w2)"
      "w_status w2 = Some 503"
      "w_out w2 = w_out ?w1 @ [Wrote ((''Docker unhealthy: '' @ err) @ [CHR 0x0A])]"
      by auto
    from ping w2(1) have "authMiddleware cfg (mux dc cfg) n ?w1 r = (Returned, w2)" for n
      unfolding route by (simp add: handleHealth_def)
    from loggingMiddleware_Returned [where inner = "authMiddleware cfg (mux dc cfg)" and elapsed = elapsed, OF this]
    have "\<forall>n. server_Handler dc cfg elapsed n w r = (Returned,
       log_Printf w2 (''<-- '' @ req_Method r @ '' '' @ req_Path r @ '' ('' @ elapsed @ '')''))"
      by (simp add: server_Handler_def)
    moreover from w2 fresh have "body_of w2 = ''Docker unhealthy: '' @ err @ [CHR 0x0A]"
      by (simp add: body_of_def)
    ultimately show "\<exists>w'. (\<forall>n. server_Handler dc cfg elapsed n w r = (Returned, w'))
               \<and> w_status w' = Some 503
               \<and> body_of w' = ''Docker unhealthy: '' @ err @ [CHR 0x0A]"
      using w2(2) by (simp add: log_Printf_frame)
  qed
qed

theorem health_endpoint_witness:
  \<open>(\<exists>w'. (\<forall>n. server_Handler example_daemon example_config ''1ms'' n (fresh_conn True)
            (example_request ''GET'' ''/_hawser/health'') = (Returned, w'))
         \<and> w_status w' = Some 200 \<and> body_of w' = ''{"status":"healthy"}'')
   \<and> (\<exists>w'. (\<forall>n. server_Handler (example_daemon\<lparr>Ping := Some ''no socket''\<rparr>) example_config ''1ms'' n
            (fresh_conn True) (example_request ''GET'' ''/_hawser/health'') = (Returned, w'))
         \<and> w_status w' = Some 503 \<and> body_of w' = ''Docker unhealthy: no socket'' @ [CHR 0x0A])\<close>
proof -
  let ?r = "example_request ''GET'' ''/_hawser/health''"
  have h1: "req_Path ?r = ''/_hawser/health''" by (simp add: example_request_def)
  have h2: "w_status (fresh_conn True) = None" "w_out (fresh_conn True) = []"
    by (simp_all add: fresh_conn_def)
  have p1: "Ping example_daemon = None" by (simp add: example_daemon_def)
  have p2: "Ping (example_daemon\<lparr>Ping := Some ''no socket''\<rparr>) = Some ''no socket''" by simp
  from health_endpoint [OF h1 h2, of example_daemon example_config "''1ms''", THEN conjunct1] p1
  have \<open>\<exists>w'. (\<forall>n. server_Handler example_daemon example_config ''1ms'' n (fresh_conn True) ?r
            = (Returned, w'))
         \<and> w_status w' = Some 200 \<and> body_of w' = ''{"status":"healthy"}''\<close>
    by blast
  moreover
  from health_endpoint [OF h1 h2, of "example_daemon\<lparr>Ping := Some ''no socket''\<rparr>" example_config
      "''1ms''", THEN conjunct2, rule_format, OF p2]
  have "\<exists>w'. (\<forall>n. server_Handler (example_daemon\<lparr>Ping := Some ''no socket''\<rparr>) example_config ''1ms'' n
            (fresh_conn True) ?r = (Returned, w'))
         \<and> w_status w' = Some 503 \<and> body_of w' = ''Docker unhealthy: no socket'' @ [CHR 0x0A]"
    by simp
  ultimately show ?thesis by blast
qed

text \<open>
  C9. \<open>handleProxy\<close> makes one call of the daemon, and the header map it hands over holds
  one value under a name: every value in it is the first value of the request header of
  that name, and every request header that has a value and is not hop-by-hop is in it with
  its first value, so the later values of a header are not forwarded. In the other
  direction, after a response of the daemon the writer's header map holds at every moment
  of the handler, under every canonical name, the values it held before followed by all
  values the daemon's response has for that name: every value of every header, the
  hop-by-hop ones included. That map is what is sent to the client: a header that has been
  sent is that map, and when the daemon's status code is 101 or in 200..999 the status
  line has been sent with it.
\<close>

theorem header_values_both_directions:
  "(\<exists>hs. daemon_calls (snd (handleProxy dc n w r))
            = daemon_calls w @ [(req_Method r, req_RequestURI r, hs)]
       \<and> (\<forall>key v. hs key = Some v \<longrightarrow> (\<exists>vs. (key, v # vs) \<in> set (req_Header r)))
       \<and> (\<forall>key v vs. distinct (map fst (req_Header r)) \<and> (key, v # vs) \<in> set (req_Header r)
              \<and> \<not> isHopByHopHeader key \<longrightarrow> hs key = Some v))
   \<and> (RequestRaw dc (req_Method r) (req_RequestURI r) (buildHeaders (req_Header r)) (req_Body r)
         = Inr resp
       \<longrightarrow> w_header (snd (handleProxy dc n w r)) = with_values (w_header w) (resp_Header resp)
          \<and> (\<forall>rkey rvals rv. (rkey, rvals) \<in> set (resp_Header resp) \<and> rv \<in> set rvals
               \<longrightarrow> (\<exists>sent. w_header (snd (handleProxy dc n w r)) (CanonicalMIMEHeaderKey rkey)
                             = Some sent \<and> rv \<in> set sent))
          \<and> (w_status w = None \<and> w_sent_header w = None
               \<longrightarrow> w_sent_header (snd (handleProxy dc n w r)) = None
                   \<or> w_sent_header (snd (handleProxy dc n w r))
                       = Some (with_values (w_header w) (resp_Header resp)))
          \<and> (w_status w = None \<and> (resp_StatusCode resp = 101 \<or> 200 \<le> resp_StatusCode resp)
                \<and> resp_StatusCode resp \<le> 999
               \<longrightarrow> w_status (snd (handleProxy dc n w r)) = Some (resp_StatusCode resp)
                   \<and> w_sent_header (snd (handleProxy dc n w r))
                       = Some (with_values (w_header w) (resp_Header resp))))"
proof (intro conjI impI)
  let ?hs = "buildHeaders (req_Header r)"
  have "daemon_calls (snd (handleProxy dc n w r))
            = daemon_calls w @ [(req_Method r, req_RequestURI r, ?hs)]"
    using handleProxy_calls_bodies [of dc n w r] by simp
  moreover have "\<forall>key v. ?hs key = Some v \<longrightarrow> (\<exists>vs. (key, v # vs) \<in> set (req_Header r))"
    using buildHeaders_Some by blast
  moreover have "\<forall>key v vs. distinct (map fst (req_Header r)) \<and> (key, v # vs) \<in> set (req_Header r)
              \<and> \<not> isHopByHopHeader key \<longrightarrow> ?hs key = Some v"
    using buildHeaders_present by blast
  ultimately show "\<exists>hs. daemon_calls (snd (handleProxy dc n w r))
            = daemon_calls w @ [(req_Method r, req_RequestURI r, hs)]
       \<and> (\<forall>key v. hs key = Some v \<longrightarrow> (\<exists>vs. (key, v # vs) \<in> set (req_Header r)))
       \<and> (\<forall>key v vs. distinct (map fst (req_Header r)) \<and> (key, v # vs) \<in> set (req_Header r)
              \<and> \<not> isHopByHopHeader key \<longrightarrow> hs key = Some v)"
    by blast
next
  assume d: "RequestRaw dc (req_Method r) (req_RequestURI r) (buildHeaders (req_Header r)) (req_Body r)
         = Inr resp"
  show "w_header (snd (handleProxy dc n w r)) = with_values (w_header w) (resp_Header resp)"
    by (rule handleProxy_headers(1) [OF d])
next
  assume d: "RequestRaw dc (req_Method r) (req_RequestURI r) (buildHeaders (req_Header r)) (req_Body r)
         = Inr resp"
  show "\<forall>rkey rvals rv. (rkey, rvals) \<in> set (resp_Header resp) \<and> rv \<in> set rvals
               \<longrightarrow> (\<exists>sent. w_header (snd (handleProxy dc n w r)) (CanonicalMIMEHeaderKey rkey)
                             = Some sent \<and> rv \<in> set sent)"
    unfolding handleProxy_headers(1) [OF d] using with_values_member by blast
next
  assume d: "RequestRaw dc (req_Method r) (req_RequestURI r) (buildHeaders (req_Header r)) (req_Body r)
         = Inr resp"
    and "w_status w = None \<and> w_sent_header w = None"
  then show "w_sent_header (snd (handleProxy dc n w r)) = None
                   \<or> w_sent_header (snd (handleProxy dc n w r))
                       = Some (with_values (w_header w) (resp_Header resp))"
    using handleProxy_headers(2) [OF d, of w n] by blast
next
  assume d: "RequestRaw dc (req_Method r) (req_RequestURI r) (buildHeaders (req_Header r)) (req_Body r)
         = Inr resp"
    and c: "w_status w = None \<and> (resp_StatusCode resp = 101 \<or> 200 \<le> resp_StatusCode resp)
                \<and> resp_StatusCode resp \<le> 999"
  from c handleProxy_headers(3) [OF d, of w n]
  show "w_status (snd (handleProxy dc n w r)) = Some (resp_StatusCode resp)" by blast
next
  assume d: "RequestRaw dc (req_Method r) (req_RequestURI r) (buildHeaders (req_Header r)) (req_Body r)
         = Inr resp"
    and c: "w_status w = None \<and> (resp_StatusCode resp = 101 \<or> 200 \<le> resp_StatusCode resp)
                \<and> resp_StatusCode resp \<le> 999"
  from c handleProxy_headers(3) [OF d, of w n]
  show "w_sent_header (snd (handleProxy dc n w r))
                       = Some (with_values (w_header w) (resp_Header resp))" by blast
qed

theorem header_values_both_directions_witness:
  "(\<exists>hs. daemon_calls (snd (handleProxy example_daemon 3 (fresh_conn True)
                              (example_request ''GET'' ''/containers/json'')))
            = [(''GET'', ''/containers/json'', hs)]
       \<and> hs ''Accept'' = Some ''text/plain'')
   \<and> w_header (snd (handleProxy example_daemon 3 (fresh_conn True)
                       (example_request ''GET'' ''/containers/json''))) ''Set-Cookie''
       = Some [''a=1'', ''b=2'']
   \<and> w_header (snd (handleProxy example_daemon 3 (fresh_conn True)
                       (example_request ''GET'' ''/containers/json''))) ''Connection''
       = Some [''close'']
   \<and> w_status (snd (handleProxy example_daemon 0 (fresh_conn True)
                       (example_request ''GET'' ''/containers/json''))) = Some 200
   \<and> (\<exists>h. w_sent_header (snd (handleProxy example_daemon 0 (fresh_conn True)
                                  (example_request ''GET'' ''/containers/json''))) = Some h
          \<and> h ''Set-Cookie'' = Some [''a=1'', ''b=2''] \<and> h ''Connection'' = Some [''close''])"
proof -
  let ?r = "example_request ''GET'' ''/containers/json''"
  let ?w = "fresh_conn True"
  have keys: "distinct (map fst (req_Header ?r))" by (simp add: example_request_def)
  have entry: "(''Accept'', ''text/plain'' # [''*/*'']) \<in> set (req_Header ?r)"
    by (simp add: example_request_def)
  have keep: "\<not> isHopByHopHeader ''Accept''" by code_simp
  have start: "req_Method ?r = ''GET''" "req_RequestURI ?r = ''/containers/json''"
    by (simp_all add: example_request_def)
  note d = example_answer(1) [of "''GET''"]
  have v1: "values_for (resp_Header example_response) ''Set-Cookie'' = [''a=1'', ''b=2'']"
    by code_simp
  have v2: "values_for (resp_Header example_response) ''Connection'' = [''close'']" by code_simp
  have wv: "with_values (w_header ?w) (resp_Header example_response) ''Set-Cookie''
              = Some [''a=1'', ''b=2'']"
    "with_values (w_header ?w) (resp_Header example_response) ''Connection'' = Some [''close'']"
    by (simp_all add: with_values_def v1 v2 fresh_fields)
  from header_values_both_directions [where dc = example_daemon and n = 3 and w = ?w and r = ?r,
      THEN conjunct1]
  obtain hs where
    call: "daemon_calls (snd (handleProxy example_daemon 3 ?w ?r))
            = daemon_calls ?w @ [(req_Method ?r, req_RequestURI ?r, hs)]"
    and fwd: "\<And>key v vs. distinct (map fst (req_Header ?r)) \<and> (key, v # vs) \<in> set (req_Header ?r)
              \<and> \<not> isHopByHopHeader key \<longrightarrow> hs key = Some v"
    by blast
  from fwd [of "''Accept''" "''text/plain''" "[''*/*'']"] keys entry keep
  have "hs ''Accept'' = Some ''text/plain''" by blast
  with call have c1: "\<exists>hs. daemon_calls (snd (handleProxy example_daemon 3 ?w ?r))
            = [(''GET'', ''/containers/json'', hs)] \<and> hs ''Accept'' = Some ''text/plain''"
    by (simp add: start fresh_fields)
  from header_values_both_directions [where dc = example_daemon and n = 3 and w = ?w and r = ?r
      and resp = example_response, THEN conjunct2, THEN mp, OF d, THEN conjunct1]
  have c2: "w_header (snd (handleProxy example_daemon 3 ?w ?r)) ''Set-Cookie'' = Some [''a=1'', ''b=2'']"
    "w_header (snd (handleProxy example_daemon 3 ?w ?r)) ''Connection'' = Some [''close'']"
    by (simp_all add: wv)
  have pre: "w_status ?w = None \<and> (resp_StatusCode example_response = 101
                \<or> 200 \<le> resp_StatusCode example_response)
                \<and> resp_StatusCode example_response \<le> 999"
    by (simp add: example_code fresh_fields)
  from header_values_both_directions [where dc = example_daemon and n = 0 and w = ?w and r = ?r
      and resp = example_response, THEN conjunct2, THEN mp, OF d, THEN conjunct2, THEN conjunct2,
      THEN conjunct2, THEN mp, OF pre]
  have c3: "w_status (snd (handleProxy example_daemon 0 ?w ?r)) = Some 200"
    "\<exists>h. w_sent_header (snd (handleProxy example_daemon 0 ?w ?r)) = Some h
          \<and> h ''Set-Cookie'' = Some [''a=1'', ''b=2''] \<and> h ''Connection'' = Some [''close'']"
    by (simp_all add: wv example_code)
  from c1 c2 c3 show ?thesis by (intro conjI)
qed

text \<open>
  C10. On a writer that does not implement \<open>http.Flusher\<close>, \<open>streamResponse\<close> does not fail:
  it copies the body with \<open>io.Copy\<close>, which reads with a buffer of 32 KiB and, after each
  read that returned bytes, writes them before it reads again, one write for each such
  read, and never flushes. As long as the reads return chunks without an error and the
  writer takes them the copy is running and the outside has seen, for each chunk in turn,
  the read and the write. The copy returns when a read returns an error, EOF or another
  (which is not logged), after it has written a chunk that came with the error; and it
  returns right after the first write that fails, with nothing read after it. It never
  panics. For a request that is classified as streaming \<open>handleProxy\<close> copies the body of
  the daemon's response in this way when the writer is not a flusher.
\<close>

theorem copy_without_flusher:
  assumes "\<not> w_flusher w"
  shows "(reads_ok rd 32768 body ds \<and> can_take w ds
           \<longrightarrow> (\<exists>w'. streamResponse (length ds) rd w body = (Running, w')
                  \<and> w_out w' = w_out w @ copy_events ds))
       \<and> (replays rd 32768 body ds dl e \<and> can_take w (ds @ [dl])
           \<longrightarrow> (\<exists>w'. (\<forall>m. streamResponse (Suc (length ds) + m) rd w body = (Returned, w'))
                  \<and> w_out w' = w_out w @ copy_events (ds @ [dl])))
       \<and> (reads_then rd 32768 body ds (c, err) \<and> can_take w ds \<and> \<not> can_take w (ds @ [c])
           \<longrightarrow> (\<exists>w'. (\<forall>m. streamResponse (Suc (length ds) + m) rd w body = (Returned, w'))
                  \<and> w_out w' = w_out w @ copy_events ds @ [ReadBody c, Wrote c]))
       \<and> (\<exists>evs. w_out (snd (streamResponse n rd w body)) = w_out w @ evs \<and> Flushed \<notin> set evs)
       \<and> logs (snd (streamResponse n rd w body)) = logs w
       \<and> fst (streamResponse n rd w body) \<noteq> Panicked
       \<and> (isStreamingRequest (req_Path r) (req_Method r)
            \<and> RequestRaw dc (req_Method r) (req_RequestURI r) (buildHeaders (req_Header r)) (req_Body r)
                = Inr resp
            \<and> body_Read dc = rd \<and> resp_Body resp = body
            \<and> w_status w = None \<and> 100 \<le> resp_StatusCode resp \<and> resp_StatusCode resp \<le> 999
            \<and> ws = w\<lparr>w_status := if header_events (resp_StatusCode resp) = []
                                   then Some (resp_StatusCode resp) else None\<rparr>
           \<longrightarrow> (reads_ok rd 32768 body ds \<and> can_take ws ds
                 \<longrightarrow> (\<exists>w'. handleProxy dc (length ds) w r = (Running, w')
                        \<and> w_out w' = w_out w @ header_events (resp_StatusCode resp) @ copy_events ds))
              \<and> (replays rd 32768 body ds dl e \<and> can_take ws (ds @ [dl])
                 \<longrightarrow> (\<exists>w'. (\<forall>m. handleProxy dc (Suc (length ds) + m) w r = (Returned, w'))
                        \<and> w_out w' = w_out w @ header_events (resp_StatusCode resp)
                                       @ copy_events (ds @ [dl])
                        \<and> logs w' = logs w))
              \<and> (reads_then rd 32768 body ds (c, err) \<and> can_take ws ds \<and> \<not> can_take ws (ds @ [c])
                 \<longrightarrow> (\<exists>w'. (\<forall>m. handleProxy dc (Suc (length ds) + m) w r = (Returned, w'))
                        \<and> w_out w' = w_out w @ header_events (resp_StatusCode resp)
                                       @ copy_events ds @ [ReadBody c, Wrote c])))"
proof -
  have loop: "streamResponse k rd w body = io_Copy k rd w body" for k
    using assms by (simp add: streamResponse_def)
  have c1: "reads_ok rd 32768 body ds \<and> can_take w ds
           \<longrightarrow> (\<exists>w'. streamResponse (length ds) rd w body = (Running, w')
                  \<and> w_out w' = w_out w @ copy_events ds)"
  proof
    assume "reads_ok rd 32768 body ds \<and> can_take w ds"
    with io_Copy_prefix [of rd body ds w]
    show "\<exists>w'. streamResponse (length ds) rd w body = (Running, w')
                  \<and> w_out w' = w_out w @ copy_events ds"
      unfolding loop by (cases "io_Copy (length ds) rd w body") auto
  qed
  have c2: "replays rd 32768 body ds dl e \<and> can_take w (ds @ [dl])
           \<longrightarrow> (\<exists>w'. (\<forall>m. streamResponse (Suc (length ds) + m) rd w body = (Returned, w'))
                  \<and> w_out w' = w_out w @ copy_events (ds @ [dl]))"
  proof
    assume "replays rd 32768 body ds dl e \<and> can_take w (ds @ [dl])"
    then have "reads_then rd 32768 body ds (dl, Some e)" "can_take w (ds @ [dl])"
      by (simp_all add: replays_def)
    from io_Copy_end [OF this] obtain w' where
      w': "io_Copy (Suc (length ds)) rd w body = (Returned, w')"
      "w_out w' = w_out w @ copy_events (ds @ [dl])"
      by (cases "io_Copy (Suc (length ds)) rd w body") auto
    have "io_Copy (Suc (length ds) + m) rd w body = (Returned, w')" for m
      using io_Copy_more [of "Suc (length ds)" rd w body m] w'(1) by simp
    with w' show "\<exists>w'. (\<forall>m. streamResponse (Suc (length ds) + m) rd w body = (Returned, w'))
                  \<and> w_out w' = w_out w @ copy_events (ds @ [dl])"
      unfolding loop by blast
  qed
  have c3: "reads_then rd 32768 body ds (c, err) \<and> can_take w ds \<and> \<not> can_take w (ds @ [c])
           \<longrightarrow> (\<exists>w'. (\<forall>m. streamResponse (Suc (length ds) + m) rd w body = (Returned, w'))
                  \<and> w_out w' = w_out w @ copy_events ds @ [ReadBody c, Wrote c])"
  proof
    assume "reads_then rd 32768 body ds (c, err) \<and> can_take w ds \<and> \<not> can_take w (ds @ [c])"
    then have a: "reads_then rd 32768 body ds (c, err)" "can_take w ds" "\<not> can_take w (ds @ [c])"
      by simp_all
    define w' where "w' = snd (io_Copy (Suc (length ds)) rd w body)"
    note rf = io_Copy_refused [OF a]
    from rf [of 0] have "fst (io_Copy (Suc (length ds)) rd w body) \<noteq> Running" by simp
    from io_Copy_more [OF this] rf [of 0]
    have "io_Copy (Suc (length ds) + m) rd w body = (Returned, w')" for m
      by (simp add: w'_def prod_eq_iff del: io_Copy.simps)
    moreover from rf [of 0] have "w_out w' = w_out w @ copy_events ds @ [ReadBody c, Wrote c]"
      by (simp add: w'_def del: io_Copy.simps)
    ultimately show "\<exists>w'. (\<forall>m. streamResponse (Suc (length ds) + m) rd w body = (Returned, w'))
                  \<and> w_out w' = w_out w @ copy_events ds @ [ReadBody c, Wrote c]"
      unfolding loop by blast
  qed
  have c4: "\<exists>evs. w_out (snd (streamResponse n rd w body)) = w_out w @ evs \<and> Flushed \<notin> set evs"
    unfolding loop by (rule io_Copy_no_flush)
  have c5: "logs (snd (streamResponse n rd w body)) = logs w"
    unfolding loop using io_Copy_frame [of n rd w body] by simp
  have c6: "fst (streamResponse n rd w body) \<noteq> Panicked"
    using streamResponse_frame [of n rd w body] by simp
  have c7: "isStreamingRequest (req_Path r) (req_Method r)
            \<and> RequestRaw dc (req_Method r) (req_RequestURI r) (buildHeaders (req_Header r)) (req_Body r)
                = Inr resp
            \<and> body_Read dc = rd \<and> resp_Body resp = body
            \<and> w_status w = None \<and> 100 \<le> resp_StatusCode resp \<and> resp_StatusCode resp \<le> 999
            \<and> ws = w\<lparr>w_status := if header_events (resp_StatusCode resp) = []
                                   then Some (resp_StatusCode resp) else None\<rparr>
           \<longrightarrow> (reads_ok rd 32768 body ds \<and> can_take ws ds
                 \<longrightarrow> (\<exists>w'. handleProxy dc (length ds) w r = (Running, w')
                        \<and> w_out w' = w_out w @ header_events (resp_StatusCode resp) @ copy_events ds))
              \<and> (replays rd 32768 body ds dl e \<and> can_take ws (ds @ [dl])
                 \<longrightarrow> (\<exists>w'. (\<forall>m. handleProxy dc (Suc (length ds) + m) w r = (Returned, w'))
                        \<and> w_out w' = w_out w @ header_events (resp_StatusCode resp)
                                       @ copy_events (ds @ [dl])
                        \<and> logs w' = logs w))
              \<and> (reads_then rd 32768 body ds (c, err) \<and> can_take ws ds \<and> \<not> can_take ws (ds @ [c])
                 \<longrightarrow> (\<exists>w'. (\<forall>m. handleProxy dc (Suc (length ds) + m) w r = (Returned, w'))
                        \<and> w_out w' = w_out w @ header_events (resp_StatusCode resp)
                                       @ copy_events ds @ [ReadBody c, Wrote c]))"
  proof
    assume a: "isStreamingRequest (req_Path r) (req_Method r)
            \<and> RequestRaw dc (req_Method r) (req_RequestURI r) (buildHeaders (req_Header r)) (req_Body r)
                = Inr resp
            \<and> body_Read dc = rd \<and> resp_Body resp = body
            \<and> w_status w = None \<and> 100 \<le> resp_StatusCode resp \<and> resp_StatusCode resp \<le> 999
            \<and> ws = w\<lparr>w_status := if header_events (resp_StatusCode resp) = []
                                   then Some (resp_StatusCode resp) else None\<rparr>"
    then have d: "RequestRaw dc (req_Method r) (req_RequestURI r) (buildHeaders (req_Header r)) (req_Body r)
                = Inr resp"
      and fresh: "w_status w = None"
      and code: "100 \<le> resp_StatusCode resp" "resp_StatusCode resp \<le> 999"
      and rd: "body_Read dc = rd" "resp_Body resp = body"
      and ws: "w\<lparr>w_status := if header_events (resp_StatusCode resp) = []
                                   then Some (resp_StatusCode resp) else None\<rparr> = ws"
      by simp_all
    have plain: "\<not> (isStreamingRequest (req_Path r) (req_Method r) \<and> w_flusher w)"
      using assms by simp
    note hc = handleProxy_copy [OF d fresh code plain, unfolded rd ws]
    show "(reads_ok rd 32768 body ds \<and> can_take ws ds
                 \<longrightarrow> (\<exists>w'. handleProxy dc (length ds) w r = (Running, w')
                        \<and> w_out w' = w_out w @ header_events (resp_StatusCode resp) @ copy_events ds))
              \<and> (replays rd 32768 body ds dl e \<and> can_take ws (ds @ [dl])
                 \<longrightarrow> (\<exists>w'. (\<forall>m. handleProxy dc (Suc (length ds) + m) w r = (Returned, w'))
                        \<and> w_out w' = w_out w @ header_events (resp_StatusCode resp)
                                       @ copy_events (ds @ [dl])
                        \<and> logs w' = logs w))
              \<and> (reads_then rd 32768 body ds (c, err) \<and> can_take ws ds \<and> \<not> can_take ws (ds @ [c])
                 \<longrightarrow> (\<exists>w'. (\<forall>m. handleProxy dc (Suc (length ds) + m) w r = (Returned, w'))
                        \<and> w_out w' = w_out w @ header_events (resp_StatusCode resp)
                                       @ copy_events ds @ [ReadBody c, Wrote c]))"
      unfolding replays_def using hc(1) [of ds] hc(2) [of ds dl e] hc(3) [of ds c err] by blast
  qed
  from c1 c2 c3 c4 c5 c6 c7 show ?thesis by (intro conjI)
qed

theorem copy_without_flusher_witness:
  "(\<exists>w'. handleProxy example_daemon 1 (fresh_conn False) (example_request ''GET'' ''/containers/abc/logs'')
            = (Running, w')
         \<and> w_out w' = [ReadBody ''hello '', Wrote ''hello ''])
   \<and> (\<exists>w'. (\<forall>m. handleProxy example_daemon (3 + m) (fresh_conn False)
                    (example_request ''GET'' ''/containers/abc/logs'') = (Returned, w'))
         \<and> w_out w' = [ReadBody ''hello '', Wrote ''hello '', ReadBody ''world'', Wrote ''world'',
                        ReadBody []]
         \<and> logs w' = [])
   \<and> (\<exists>w'. (\<forall>m. handleProxy (example_daemon\<lparr>RequestRaw := \<lambda>meth uri headers body.
                          Inr (example_response\<lparr>resp_StatusCode := 204\<rparr>)\<rparr>) (1 + m) (fresh_conn False)
                    (example_request ''GET'' ''/containers/abc/logs'') = (Returned, w'))
         \<and> w_out w' = [ReadBody ''hello '', Wrote ''hello ''])
   \<and> (\<exists>w'. (\<forall>m. streamResponse (2 + m) scripted (fresh_conn False\<lparr>w_limit := Some 1\<rparr>)
                    [(''hello '', None), (''world'', None)] = (Returned, w'))
         \<and> w_out w' = [ReadBody ''hello '', Wrote ''hello '', ReadBody ''world'', Wrote ''world''])
   \<and> (\<exists>w'. (\<forall>m. streamResponse (1 + m) scripted (fresh_conn False)
                    [(''par'', Some (ReadError ''reset''))] = (Returned, w'))
         \<and> w_out w' = [ReadBody ''par'', Wrote ''par''])
   \<and> logs (snd (streamResponse 1 scripted (fresh_conn False) [(''par'', Some (ReadError ''reset''))]))
       = []"
proof -
  let ?r = "example_request ''GET'' ''/containers/abc/logs''"
  let ?w = "fresh_conn False"
  let ?body = "[(''hello '', None), (''world'', None)]"
  let ?d204 = "example_daemon\<lparr>RequestRaw := \<lambda>meth uri headers body.
                          Inr (example_response\<lparr>resp_StatusCode := 204\<rparr>)\<rparr>"
  let ?r204 = "example_response\<lparr>resp_StatusCode := 204\<rparr>"
  have fl: "\<not> w_flusher ?w" "\<not> w_flusher (?w\<lparr>w_limit := Some 1\<rparr>)" by (simp_all add: fresh_fields)
  have pre: "isStreamingRequest (req_Path ?r) (req_Method ?r)
            \<and> RequestRaw example_daemon (req_Method ?r) (req_RequestURI ?r)
                 (buildHeaders (req_Header ?r)) (req_Body ?r) = Inr example_response
            \<and> body_Read example_daemon = scripted
            \<and> resp_Body example_response = ?body
            \<and> w_status ?w = None \<and> 100 \<le> resp_StatusCode example_response
            \<and> resp_StatusCode example_response \<le> 999
            \<and> ?w\<lparr>w_status := Some 200\<rparr> = ?w\<lparr>w_status := if header_events (resp_StatusCode example_response) = []
                                   then Some (resp_StatusCode example_response) else None\<rparr>"
    using example_streaming example_answer(2) [of "''GET''"]
    by (simp add: example_code fresh_fields)
  have pre204: "isStreamingRequest (req_Path ?r) (req_Method ?r)
            \<and> RequestRaw ?d204 (req_Method ?r) (req_RequestURI ?r)
                 (buildHeaders (req_Header ?r)) (req_Body ?r) = Inr ?r204
            \<and> body_Read ?d204 = scripted
            \<and> resp_Body ?r204 = ?body
            \<and> w_status ?w = None \<and> 100 \<le> resp_StatusCode ?r204
            \<and> resp_StatusCode ?r204 \<le> 999
            \<and> ?w\<lparr>w_status := Some 204\<rparr> = ?w\<lparr>w_status := if header_events (resp_StatusCode ?r204) = []
                                   then Some (resp_StatusCode ?r204) else None\<rparr>"
    using example_streaming
    by (simp add: example_code fresh_fields header_events_def example_daemon_def)
  have ct: "can_take (?w\<lparr>w_status := Some 200\<rparr>) ds" for ds
    by (simp add: fresh_can_take bodyAllowed_def)
  have r1: "reads_ok scripted 32768 ?body [''hello ''] \<and> can_take (?w\<lparr>w_status := Some 200\<rparr>) [''hello '']"
    using ct by simp
  have r2: "replays scripted 32768 ?body [''hello '', ''world''] [] EOF
            \<and> can_take (?w\<lparr>w_status := Some 200\<rparr>) ([''hello '', ''world''] @ [[]])"
    using ct by (simp add: replays_def)
  from copy_without_flusher [OF fl(1), where rd = scripted and dc = example_daemon and r = ?r
      and resp = example_response and body = ?body and ds = "[''hello '']"
      and ws = "?w\<lparr>w_status := Some 200\<rparr>",
      THEN conjunct2, THEN conjunct2, THEN conjunct2, THEN conjunct2, THEN conjunct2,
      THEN conjunct2, THEN mp, OF pre, THEN conjunct1, THEN mp, OF r1]
  have w1: "\<exists>w'. handleProxy example_daemon 1 ?w ?r = (Running, w')
         \<and> w_out w' = [ReadBody ''hello '', Wrote ''hello '']"
    by (auto simp add: example_code fresh_fields copy_events_def)
  from copy_without_flusher [OF fl(1), where rd = scripted and dc = example_daemon and r = ?r
      and resp = example_response and body = ?body and ds = "[''hello '', ''world'']"
      and dl = "[]" and e = EOF and ws = "?w\<lparr>w_status := Some 200\<rparr>",
      THEN conjunct2, THEN conjunct2, THEN conjunct2, THEN conjunct2, THEN conjunct2,
      THEN conjunct2, THEN mp, OF pre, THEN conjunct2, THEN conjunct1, THEN mp, OF r2]
  have w2: "\<exists>w'. (\<forall>m. handleProxy example_daemon (3 + m) ?w ?r = (Returned, w'))
         \<and> w_out w' = [ReadBody ''hello '', Wrote ''hello '', ReadBody ''world'', Wrote ''world'',
                        ReadBody []]
         \<and> logs w' = []"
    by (auto simp add: example_code fresh_fields copy_events_def numeral_3_eq_3)
  have r3: "reads_then scripted 32768 ?body [] (''hello '', None)
            \<and> can_take (?w\<lparr>w_status := Some 204\<rparr>) []
            \<and> \<not> can_take (?w\<lparr>w_status := Some 204\<rparr>) ([] @ [''hello ''])"
    by (simp add: can_take_def bodyAllowed_def)
  from copy_without_flusher [OF fl(1), where rd = scripted and dc = ?d204 and r = ?r
      and resp = ?r204 and body = ?body and ds = "[]" and c = "''hello ''" and err = None
      and ws = "?w\<lparr>w_status := Some 204\<rparr>",
      THEN conjunct2, THEN conjunct2, THEN conjunct2, THEN conjunct2, THEN conjunct2,
      THEN conjunct2, THEN mp, OF pre204, THEN conjunct2, THEN conjunct2, THEN mp, OF r3]
  have w3: "\<exists>w'. (\<forall>m. handleProxy ?d204 (1 + m) ?w ?r = (Returned, w'))
         \<and> w_out w' = [ReadBody ''hello '', Wrote ''hello '']"
    by (auto simp add: fresh_fields copy_events_def header_events_def)
  have r4: "reads_then scripted 32768 ?body [''hello ''] (''world'', None)
            \<and> can_take (?w\<lparr>w_limit := Some 1\<rparr>) [''hello '']
            \<and> \<not> can_take (?w\<lparr>w_limit := Some 1\<rparr>) ([''hello ''] @ [''world''])"
    by (simp add: can_take_def fresh_fields)
  from copy_without_flusher [OF fl(2), where rd = scripted and body = ?body and ds = "[''hello '']"
      and c = "''world''" and err = None,
      THEN conjunct2, THEN conjunct2, THEN conjunct1, THEN mp, OF r4]
  have w4: "\<exists>w'. (\<forall>m. streamResponse (2 + m) scripted (?w\<lparr>w_limit := Some 1\<rparr>) ?body = (Returned, w'))
         \<and> w_out w' = [ReadBody ''hello '', Wrote ''hello '', ReadBody ''world'', Wrote ''world'']"
    by (auto simp add: fresh_fields copy_events_def numeral_2_eq_2)
  have r5: "replays scripted 32768 [(''par'', Some (ReadError ''reset''))] [] ''par'' (ReadError ''reset'')
            \<and> can_take ?w ([] @ [''par''])"
    by (simp add: replays_def fresh_can_take)
  from copy_without_flusher [OF fl(1), where rd = scripted
      and body = "[(''par'', Some (ReadError ''reset''))]" and ds = "[]"
      and dl = "''par''" and e = "ReadError ''reset''",
      THEN conjunct2, THEN conjunct1, THEN mp, OF r5]
  have w5: "\<exists>w'. (\<forall>m. streamResponse (1 + m) scripted ?w [(''par'', Some (ReadError ''reset''))]
                     = (Returned, w'))
         \<and> w_out w' = [ReadBody ''par'', Wrote ''par'']"
    by (auto simp add: fresh_fields copy_events_def)
  from copy_without_flusher [OF fl(1), where rd = scripted
      and body = "[(''par'', Some (ReadError ''reset''))]" and n = 1,
      THEN conjunct2, THEN conjunct2, THEN conjunct2, THEN conjunct2, THEN conjunct1]
  have w6: "logs (snd (streamResponse 1 scripted ?w [(''par'', Some (ReadError ''reset''))])) = []"
    by (simp add: fresh_fields)
  from w1 w2 w3 w4 w5 w6 show ?thesis by (intro conjI)
qed

text \<open>
  C10 does not hold where it speaks of a single copy of the full body with no write per
  chunk: the streaming request \<open>GET /containers/abc/logs\<close> on a writer that is not a
  flusher, with a body that arrives in two reads, is answered with two writes, one after
  each read.
\<close>

theorem single_copy_counterexample:
  "\<not> w_flusher (fresh_conn False)
   \<and> isStreamingRequest (req_Path (example_request ''GET'' ''/containers/abc/logs''))
       (req_Method (example_request ''GET'' ''/containers/abc/logs''))
   \<and> (\<exists>w'. handleProxy example_daemon 3 (fresh_conn False)
              (example_request ''GET'' ''/containers/abc/logs'') = (Returned, w')
          \<and> w_out w' = [ReadBody ''hello '', Wrote ''hello '', ReadBody ''world'', Wrote ''world'',
                         ReadBody []]
          \<and> count_writes (w_out w') = 2)"
proof -
  let ?r = "example_request ''GET'' ''/containers/abc/logs''"
  let ?w = "fresh_conn False"
  have plain: "\<not> (isStreamingRequest (req_Path ?r) (req_Method ?r) \<and> w_flusher ?w)"
    by (simp add: fresh_fields)
  have code: "100 \<le> resp_StatusCode example_response" "resp_StatusCode example_response \<le> 999"
    by (simp_all add: example_code)
  have ct: "can_take (?w\<lparr>w_status := if header_events (resp_StatusCode example_response) = []
                then Some (resp_StatusCode example_response) else None\<rparr>) ds" for ds
    by (simp add: example_code fresh_can_take bodyAllowed_def)
  from handleProxy_copy(2) [OF example_answer(2) fresh_fields(1) code plain,
      of "[''hello '', ''world'']" "[]" EOF] ct
  obtain w' where "\<forall>m. handleProxy example_daemon (Suc (length [''hello '', ''world'']) + m) ?w ?r
      = (Returned, w')"
    "w_out w' = [ReadBody ''hello '', Wrote ''hello '', ReadBody ''world'', Wrote ''world'', ReadBody []]"
    by (auto simp add: example_code fresh_fields copy_events_def)
  from this(1) [rule_format, of 0] this(2)
  have "\<exists>w'. handleProxy example_daemon 3 ?w ?r = (Returned, w')
          \<and> w_out w' = [ReadBody ''hello '', Wrote ''hello '', ReadBody ''world'', Wrote ''world'',
                         ReadBody []]
          \<and> count_writes (w_out w') = 2"
    by (simp add: numeral_3_eq_3 count_writes_def)
  with example_streaming show ?thesis by (simp add: fresh_fields)
qed

end
